theory Spec2Isabelle
  imports Complex_Main "HOL-Library.Word" "HOL-Library.Sublist"
begin

section \<open>The ISA item model of qt\_isa\_gui\<close>

text \<open>
  A shallow embedding of \<^verbatim>\<open>IsaItemModel\<close> (isa\_item\_model.h, isa\_item\_model.cpp):
  the token classifier \<^verbatim>\<open>ParseSelectableTokens\<close>, the branch/label resolution pass
  \<^verbatim>\<open>MapBlocksToBranchInstructions\<close>, the line index built by \<^verbatim>\<open>CacheSizeHints\<close> and
  the queries \<^verbatim>\<open>GetLineNumberModelIndex\<close>, \<^verbatim>\<open>ColumnSizeHint\<close> and
  \<^verbatim>\<open>data(index, kBranchIndexRole)\<close>.

  Conventions of the embedding.
  \<^item> \<^verbatim>\<open>std::string\<close> is \<open>string\<close>, one \<open>char\<close> per byte. ISA text is ASCII without
    NUL, where \<^verbatim>\<open>QString(token.c_str())\<close> has the same characters and the same size as
    the \<^verbatim>\<open>std::string\<close>.
  \<^item> \<^verbatim>\<open>uint32_t\<close> is \<open>32 word\<close>; \<^verbatim>\<open>int\<close> values that are only stored and compared are
    \<open>int\<close>; a conversion to \<^verbatim>\<open>int\<close> of a size or of a \<^verbatim>\<open>uint32_t\<close> is written out with
    \<open>sint\<close>.
  \<^item> \<^verbatim>\<open>qreal\<close> is \<open>real\<close>: the rounding of floating point arithmetic is not modelled.
  \<^item> A C++ exception or undefined behaviour is a value \<open>Inl e\<close> of the result type
    \<open>error + 'a\<close>.
  \<^item> The model owns its blocks and rows by value: no two entries of \<^verbatim>\<open>blocks_\<close> share
    an object.
\<close>

subsection \<open>Errors\<close>

datatype error =
    std_out_of_range        \<comment> \<open>thrown by \<^verbatim>\<open>std::vector::at\<close> and by \<^verbatim>\<open>std::stoi\<close>\<close>
  | std_invalid_argument    \<comment> \<open>thrown by \<^verbatim>\<open>std::stoi\<close>\<close>
  | undefined_behaviour     \<comment> \<open>an unchecked read or a downcast to the wrong class\<close>
  | never_returns           \<comment> \<open>a loop that does not end\<close>

definition bind_result :: "error + 'a \<Rightarrow> ('a \<Rightarrow> error + 'b) \<Rightarrow> error + 'b" where
  "bind_result r f = (case r of Inl e \<Rightarrow> Inl e | Inr x \<Rightarrow> f x)"

subsection \<open>Tokens, rows and blocks (isa\_item\_model.h)\<close>

datatype RowType = kCode | kComment | kRowCount

datatype TokenType =
    kLabelType
  | kBranchLabelType
  | kScalarRegisterType
  | kVectorRegisterType
  | kConstantType
  | kTypeCount

record Token =
  token_text :: string
  type :: TokenType
  start_register_index :: int
  end_register_index :: int
  x_position_start :: real
  x_position_end :: real
  is_selectable :: bool

text \<open>\<^verbatim>\<open>Token::Clear\<close>, which the constructor \<^verbatim>\<open>Token()\<close> calls.\<close>

definition Clear :: Token where
  "Clear = \<lparr> token_text = [], type = kTypeCount, start_register_index = - 1,
             end_register_index = - 1, x_position_start = - 1, x_position_end = - 1,
             is_selectable = False \<rparr>"

text \<open>
  \<^verbatim>\<open>Row\<close> with its two final subclasses. \<^verbatim>\<open>row_type\<close> is fixed by the constructors:
  \<^verbatim>\<open>kComment\<close> for a \<^verbatim>\<open>CommentRow\<close>, \<^verbatim>\<open>kCode\<close> for an \<^verbatim>\<open>InstructionRow\<close>.
\<close>

datatype Row =
    CommentRow (line_number: "32 word") (comment_text: string)
  | InstructionRow (line_number: "32 word") (op_code_token: Token)
      (operand_tokens: "Token list list") (pc_address: string)
      (binary_representation: string) (enabled: bool)

fun row_type :: "Row \<Rightarrow> RowType" where
  "row_type (CommentRow _ _) = kComment"
| "row_type (InstructionRow _ _ _ _ _ _) = kCode"

text \<open>
  \<^verbatim>\<open>Block\<close> with its two final subclasses; both carry \<^verbatim>\<open>instruction_lines\<close>. Only an
  \<^verbatim>\<open>InstructionBlock\<close> has a label token and the list \<^verbatim>\<open>mapped_branch_instructions\<close>.
\<close>

datatype Block =
    CommentBlock (position: int) (block_line_number: "32 word")
      (instruction_lines: "Row list") (block_text: string)
  | InstructionBlock (position: int) (block_line_number: "32 word")
      (instruction_lines: "Row list") (token: Token)
      (mapped_branch_instructions: "(32 word \<times> 32 word) list")

fun block_row_type :: "Block \<Rightarrow> RowType" where
  "block_row_type (CommentBlock _ _ _ _) = kComment"
| "block_row_type (InstructionBlock _ _ _ _ _) = kCode"

text \<open>The members of \<^verbatim>\<open>IsaItemModel\<close>, named without the trailing underscore of the
  source.\<close>

record IsaItemModel =
  blocks :: "Block list"
  code_block_label_to_index :: "string \<rightharpoonup> int"
  fixed_font_character_width :: real
  line_numbers_visible :: bool
  column_widths :: "32 word list"
  line_number_corresponding_indices :: "(32 word \<times> 32 word) list"

subsection \<open>String helpers: \<^verbatim>\<open>std::string::find\<close>, \<^verbatim>\<open>TrimStr\<close>, \<^verbatim>\<open>Split\<close>, \<^verbatim>\<open>std::stoi\<close>\<close>

definition kUnconditionalBranchString :: string where
  "kUnconditionalBranchString = ''s_branch''"

definition kConditionalBranchString :: string where
  "kConditionalBranchString = ''s_cbranch_''"

text \<open>\<^verbatim>\<open>line.find(delimiter)\<close>: the first position where \<open>delimiter\<close> occurs, \<open>None\<close> for
  \<^verbatim>\<open>npos\<close>.\<close>

fun str_find :: "string \<Rightarrow> string \<Rightarrow> nat option" where
  "str_find [] delimiter = (if delimiter = [] then Some 0 else None)"
| "str_find (c # cs) delimiter =
     (if prefix delimiter (c # cs) then Some 0 else map_option Suc (str_find cs delimiter))"

text \<open>The characters of \<^verbatim>\<open>kSpecialChars = " \t\n\r\f\v"\<close>; the same set is \<^verbatim>\<open>isspace\<close> in
  the C locale.\<close>

definition is_special_char :: "char \<Rightarrow> bool" where
  "is_special_char c =
     (c \<in> set [CHR '' '', CHR 0x09, CHR 0x0A, CHR 0x0D, CHR 0x0C, CHR 0x0B])"

definition isdigit :: "char \<Rightarrow> bool" where
  "isdigit c = (c \<in> set ''0123456789'')"

text \<open>\<^verbatim>\<open>TrimStr\<close> erases what follows the last character that is not special, then what
  precedes the first one.\<close>

definition TrimStr :: "string \<Rightarrow> string" where
  "TrimStr input_string =
     dropWhile is_special_char (rev (dropWhile is_special_char (rev input_string)))"

lemma str_find_Some_nonempty:
  "str_find line delimiter = Some pos \<Longrightarrow> delimiter \<noteq> [] \<Longrightarrow> line \<noteq> []"
  by (cases line) auto

text \<open>
  \<^verbatim>\<open>Split\<close>. With an empty delimiter \<^verbatim>\<open>find\<close> returns 0 for every line and
  \<^verbatim>\<open>erase(0, 0)\<close> removes nothing, so the loop does not end: the result is \<open>None\<close>.
\<close>

function Split :: "string \<Rightarrow> string \<Rightarrow> string list option" where
  "Split line delimiter =
     (if delimiter = [] then None
      else case str_find line delimiter of
             None \<Rightarrow> Some [TrimStr line]
           | Some pos \<Rightarrow>
               map_option ((#) (TrimStr (take pos line)))
                 (Split (drop (pos + length delimiter) line) delimiter))"
  by pat_completeness auto
termination
proof (relation "measure (\<lambda>(line, delimiter). length line)")
  show "wf (measure (\<lambda>(line, delimiter). length line))" by simp
next
  fix line delimiter :: string and pos :: nat
  assume d: "delimiter \<noteq> []" and f: "str_find line delimiter = Some pos"
  from str_find_Some_nonempty [OF f d] have "line \<noteq> []" .
  moreover from d have "0 < length delimiter" by simp
  ultimately show "((drop (pos + length delimiter) line, delimiter), (line, delimiter))
        \<in> measure (\<lambda>(line, delimiter). length line)"
    by simp
qed

declare Split.simps [simp del]

definition digit_value :: "char \<Rightarrow> int" where
  "digit_value c = of_char c - 48"

definition decimal :: "string \<Rightarrow> int" where
  "decimal ds = foldl (\<lambda>n c. 10 * n + digit_value c) 0 ds"

text \<open>
  \<^verbatim>\<open>std::stoi(str)\<close> in base 10: skips leading white space, reads an optional sign and
  the longest run of digits, throws \<^verbatim>\<open>std::invalid_argument\<close> when there is no digit and
  \<^verbatim>\<open>std::out_of_range\<close> when the value does not fit a 32-bit \<^verbatim>\<open>int\<close>.
\<close>

definition stoi :: "string \<Rightarrow> error + int" where
  "stoi str =
     (let s1 = dropWhile is_special_char str;
          neg = (s1 \<noteq> [] \<and> hd s1 = CHR ''-'');
          s2 = (if s1 \<noteq> [] \<and> (hd s1 = CHR ''-'' \<or> hd s1 = CHR ''+'') then tl s1 else s1);
          ds = takeWhile isdigit s2
      in if ds = [] then Inl std_invalid_argument
         else let v = (if neg then - decimal ds else decimal ds)
              in if v < - 2147483648 \<or> 2147483647 < v then Inl std_out_of_range
                 else Inr v)"

subsection \<open>Regular expressions as \<^verbatim>\<open>QRegularExpression\<close> matches them\<close>

text \<open>
  The constructs the nine patterns of the file use. \<open>rx_run\<close> lists every way the
  pattern matches at the start of the input, in the order a backtracking matcher
  tries them (a greedy quantifier tries its longest match first), each with the rest of
  the input and the captured groups. The first entry is the match that is reported.
\<close>

datatype char_class = kDigit | kAnyChar

fun in_class :: "char_class \<Rightarrow> char \<Rightarrow> bool" where
  "in_class kDigit c = isdigit c"
| "in_class kAnyChar c = (c \<noteq> CHR 0x0A)"

datatype regex =
    Chr char                \<comment> \<open>a literal character\<close>
  | One char_class          \<comment> \<open>\<^verbatim>\<open>[0-9]\<close> or \<^verbatim>\<open>.\<close>\<close>
  | Opt regex               \<comment> \<open>\<^verbatim>\<open>r?\<close>\<close>
  | Plus char_class         \<comment> \<open>\<^verbatim>\<open>[0-9]+\<close>\<close>
  | Star char_class         \<comment> \<open>\<^verbatim>\<open>.*\<close>\<close>
  | Seq regex regex
  | Group nat regex         \<comment> \<open>a capturing group with its number\<close>
  | Backref nat             \<comment> \<open>\<^verbatim>\<open>\2\<close>\<close>

type_synonym captures = "(nat \<times> string) list"

fun rx_run :: "regex \<Rightarrow> string \<times> captures \<Rightarrow> (string \<times> captures) list" where
  "rx_run (Chr c) (s, cs) =
     (case s of [] \<Rightarrow> [] | x # xs \<Rightarrow> if x = c then [(xs, cs)] else [])"
| "rx_run (One k) (s, cs) =
     (case s of [] \<Rightarrow> [] | x # xs \<Rightarrow> if in_class k x then [(xs, cs)] else [])"
| "rx_run (Opt r) st = rx_run r st @ [st]"
| "rx_run (Plus k) (s, cs) =
     map (\<lambda>n. (drop n s, cs)) (rev [1..<Suc (length (takeWhile (in_class k) s))])"
| "rx_run (Star k) (s, cs) =
     map (\<lambda>n. (drop n s, cs)) (rev [0..<Suc (length (takeWhile (in_class k) s))])"
| "rx_run (Seq r1 r2) st = concat (map (rx_run r2) (rx_run r1 st))"
| "rx_run (Group n r) (s, cs) =
     map (\<lambda>(s', cs'). (s', (n, take (length s - length s') s) # cs')) (rx_run r (s, cs))"
| "rx_run (Backref n) (s, cs) =
     (case map_of cs n of
        None \<Rightarrow> []
      | Some g \<Rightarrow> if prefix g s then [(drop (length g) s, cs)] else [])"

text \<open>\<^verbatim>\<open>expression.match(subject)\<close>: the leftmost match, as
  \<open>(capturedStart, capturedEnd)\<close>; \<open>None\<close> when \<^verbatim>\<open>hasMatch()\<close> is false.\<close>

fun rx_match :: "regex \<Rightarrow> string \<Rightarrow> nat \<Rightarrow> (nat \<times> nat) option" where
  "rx_match r [] start =
     (case rx_run r ([], []) of [] \<Rightarrow> None | (rest, _) # _ \<Rightarrow> Some (start, start))"
| "rx_match r (c # s) start =
     (case rx_run r (c # s, []) of
        [] \<Rightarrow> rx_match r s (Suc start)
      | (rest, _) # _ \<Rightarrow> Some (start, start + (length (c # s) - length rest)))"

text \<open>The test the source repeats for each pattern:
  \<^verbatim>\<open>m.hasMatch() && m.capturedStart() == 0 && m.capturedEnd() == token_string_size\<close>.\<close>

definition exact_match :: "regex \<Rightarrow> string \<Rightarrow> bool" where
  "exact_match r token_string = (rx_match r token_string 0 = Some (0, length token_string))"

text \<open>\<^verbatim>\<open>(-?)(\|?)(s[0-9]+)(\2)\<close> and its vector twin.\<close>

definition kScalarRegisterExpression :: regex where
  "kScalarRegisterExpression =
     Seq (Group 1 (Opt (Chr CHR ''-''))) (Seq (Group 2 (Opt (Chr CHR ''|'')))
       (Seq (Group 3 (Seq (Chr CHR ''s'') (Plus kDigit))) (Group 4 (Backref 2))))"

definition kVectorRegisterExpression :: regex where
  "kVectorRegisterExpression =
     Seq (Group 1 (Opt (Chr CHR ''-''))) (Seq (Group 2 (Opt (Chr CHR ''|'')))
       (Seq (Group 3 (Seq (Chr CHR ''v'') (Plus kDigit))) (Group 4 (Backref 2))))"

text \<open>\<^verbatim>\<open>\[(-?)(\|?)(s[0-9]+)(\2)\<close>: the start of a pair of single registers.\<close>

definition kScalarPairStartRegisterExpression :: regex where
  "kScalarPairStartRegisterExpression = Seq (Chr CHR ''['') kScalarRegisterExpression"

definition kVectorPairStartRegisterExpression :: regex where
  "kVectorPairStartRegisterExpression = Seq (Chr CHR ''['') kVectorRegisterExpression"

text \<open>\<^verbatim>\<open>(-?)(\|?)(s[0-9]+)(\2)\]\<close>: the end of a pair of single registers.\<close>

definition kScalarPairEndRegisterExpression :: regex where
  "kScalarPairEndRegisterExpression = Seq kScalarRegisterExpression (Chr CHR '']'')"

definition kVectorPairEndRegisterExpression :: regex where
  "kVectorPairEndRegisterExpression = Seq kVectorRegisterExpression (Chr CHR '']'')"

text \<open>\<^verbatim>\<open>s\[[0-9]+:[0-9]+\]\<close> and its vector twin.\<close>

definition kScalarRegisterRangeExpression :: regex where
  "kScalarRegisterRangeExpression =
     Seq (Chr CHR ''s'') (Seq (Chr CHR ''['') (Seq (Plus kDigit)
       (Seq (Chr CHR '':'') (Seq (Plus kDigit) (Chr CHR '']'')))))"

definition kVectorRegisterRangeExpression :: regex where
  "kVectorRegisterRangeExpression =
     Seq (Chr CHR ''v'') (Seq (Chr CHR ''['') (Seq (Plus kDigit)
       (Seq (Chr CHR '':'') (Seq (Plus kDigit) (Chr CHR '']'')))))"

text \<open>\<^verbatim>\<open>-?[0-9].*\<close>\<close>

definition kConstantExpression :: regex where
  "kConstantExpression = Seq (Opt (Chr CHR ''-'')) (Seq (One kDigit) (Star kAnyChar))"

subsection \<open>\<^verbatim>\<open>ParseSelectableTokens\<close>\<close>

text \<open>
  The body of the loop over the words of one operand: the classification of one word
  \<open>tok\<close> (\<^verbatim>\<open>token\<close> in the source), in two halves. \<open>register_string.find("s") + 1\<close> is 0 when the character is absent
  (\<^verbatim>\<open>npos + 1\<close> wraps), and \<^verbatim>\<open>register_indices[0]\<close>, \<^verbatim>\<open>register_indices[1]\<close> are unchecked
  reads.
\<close>

definition after_register_character :: "string \<Rightarrow> string \<Rightarrow> string" where
  "after_register_character register_string letter =
     (case str_find register_string letter of
        None \<Rightarrow> register_string
      | Some register_character_position \<Rightarrow>
          drop (register_character_position + 1) register_string)"

text \<open>
  The second half of the body: from the five flags of the word to its token
  (\<^verbatim>\<open>if (is_scalar_register || ... || is_constant)\<close> to the end of the \<^verbatim>\<open>else\<close> branch).
\<close>

definition token_of_flags ::
  "string \<Rightarrow> bool \<Rightarrow> bool \<Rightarrow> bool \<Rightarrow> bool \<Rightarrow> bool \<Rightarrow> error + Token" where
  "token_of_flags tok is_scalar_register is_vector_register is_scalar_register_range
       is_vector_register_range is_constant =
     (let selectable_token = Clear \<lparr> is_selectable := False, token_text := tok,
                                     type := kTypeCount \<rparr>;
          selectable_token =
            (if is_scalar_register \<or> is_vector_register \<or> is_scalar_register_range
                \<or> is_vector_register_range \<or> is_constant
             then selectable_token \<lparr> is_selectable := True \<rparr>
             else selectable_token)
      in if is_scalar_register \<or> is_vector_register then
           let register_string =
                 (if is_scalar_register then after_register_character tok ''s''
                  else after_register_character tok ''v'');
               selectable_token = selectable_token \<lparr> start_register_index := - 1,
                                                       end_register_index := - 1 \<rparr>
           in if register_string \<noteq> [] \<and> isdigit (hd register_string) then
                bind_result (stoi register_string) (\<lambda>register_number.
                  Inr (selectable_token
                        \<lparr> start_register_index := register_number,
                          type := (if is_scalar_register then kScalarRegisterType
                                   else kVectorRegisterType) \<rparr>))
              else Inr (selectable_token \<lparr> is_selectable := False \<rparr>)
         else if is_scalar_register_range \<or> is_vector_register_range then
           let selectable_token = selectable_token
                 \<lparr> type := (if is_scalar_register_range then kScalarRegisterType
                             else kVectorRegisterType) \<rparr>;
               register_range_string = drop 2 (butlast tok)
           in case Split register_range_string '':'' of
                None \<Rightarrow> Inl never_returns
              | Some register_indices \<Rightarrow>
                  if length register_indices < 2 then Inl undefined_behaviour
                  else
                    bind_result (stoi (register_indices ! 0)) (\<lambda>register_start.
                    bind_result (stoi (register_indices ! 1)) (\<lambda>register_end.
                      Inr (selectable_token
                            \<lparr> start_register_index := register_start,
                              end_register_index := register_end \<rparr>)))
         else if is_constant then Inr (selectable_token \<lparr> type := kConstantType \<rparr>)
         else Inr selectable_token)"

text \<open>The first half: the branch case, and the nine matches that give the five flags.\<close>

definition classify_token :: "bool \<Rightarrow> string \<Rightarrow> error + Token" where
  "classify_token is_branch_instruction tok =
     (if is_branch_instruction
      then Inr (Clear \<lparr> is_selectable := False, token_text := tok,
                        type := kTypeCount \<rparr> \<lparr> type := kBranchLabelType \<rparr>)
      else
        let is_scalar_register = exact_match kScalarRegisterExpression tok;
            is_vector_register = exact_match kVectorRegisterExpression tok;
            is_scalar_register =
              (if \<not> is_scalar_register
               then is_scalar_register \<or> exact_match kScalarPairStartRegisterExpression tok
               else is_scalar_register);
            is_vector_register =
              (if \<not> is_vector_register
               then is_vector_register \<or> exact_match kVectorPairStartRegisterExpression tok
               else is_vector_register);
            is_scalar_register =
              (if \<not> is_scalar_register
               then is_scalar_register \<or> exact_match kScalarPairEndRegisterExpression tok
               else is_scalar_register);
            is_vector_register =
              (if \<not> is_vector_register
               then is_vector_register \<or> exact_match kVectorPairEndRegisterExpression tok
               else is_vector_register);
            is_scalar_register_range = exact_match kScalarRegisterRangeExpression tok;
            is_vector_register_range = exact_match kVectorRegisterRangeExpression tok;
            is_constant = exact_match kConstantExpression tok
        in token_of_flags tok is_scalar_register is_vector_register
             is_scalar_register_range is_vector_register_range is_constant)"

fun classify_tokens :: "bool \<Rightarrow> string list \<Rightarrow> error + Token list" where
  "classify_tokens is_branch_instruction [] = Inr []"
| "classify_tokens is_branch_instruction (tok # toks) =
     bind_result (classify_token is_branch_instruction tok) (\<lambda>selectable_token.
     bind_result (classify_tokens is_branch_instruction toks) (\<lambda>operand_tokens.
       Inr (selectable_token # operand_tokens)))"

text \<open>
  The loop that sets the hit boxes of the toks of one operand. The state is
  \<open>(token_start_x, token_end_x, token_width)\<close>; \<open>token_width\<close> is declared outside both
  loops and keeps the width of the last token.
\<close>

fun set_hit_boxes ::
  "real \<Rightarrow> Token list \<Rightarrow> real \<times> real \<times> real \<Rightarrow> Token list \<times> real \<times> real \<times> real" where
  "set_hit_boxes fixed_character_width [] st = ([], st)"
| "set_hit_boxes fixed_character_width (selectable_token # rest)
       (token_start_x, token_end_x, token_width) =
     (let token_width = fixed_character_width * real (length (token_text selectable_token));
          token_end_x = token_end_x + token_width;
          selectable_token = selectable_token \<lparr> x_position_start := token_start_x,
                                                  x_position_end := token_end_x \<rparr>;
          st = (if rest \<noteq> []
                then (token_start_x + token_width + fixed_character_width,
                      token_end_x + fixed_character_width, token_width)
                else (token_start_x, token_end_x, token_width));
          (rest', st') = set_hit_boxes fixed_character_width rest st
      in (selectable_token # rest', st'))"

text \<open>The loop over the operands; \<^verbatim>\<open>QString(", ").size()\<close> is 2.\<close>

fun parse_operands ::
  "bool \<Rightarrow> real \<Rightarrow> string list \<Rightarrow> real \<times> real \<times> real \<Rightarrow> error + Token list list" where
  "parse_operands is_branch_instruction fixed_character_width [] st = Inr []"
| "parse_operands is_branch_instruction fixed_character_width (operand # operands) st =
     (case Split operand '' '' of
        None \<Rightarrow> Inl never_returns
      | Some toks \<Rightarrow>
          bind_result (classify_tokens is_branch_instruction toks) (\<lambda>operand_tokens.
            case set_hit_boxes fixed_character_width operand_tokens st of
              (operand_tokens, token_start_x, token_end_x, token_width) \<Rightarrow>
                bind_result
                  (parse_operands is_branch_instruction fixed_character_width operands
                     (token_start_x + token_width + fixed_character_width * 2,
                      token_end_x + fixed_character_width * 2, token_width))
                  (\<lambda>groups. Inr (operand_tokens # groups))))"

text \<open>
  \<^verbatim>\<open>ParseSelectableTokens\<close>. The two out-parameters are arguments and results: the
  fields of \<open>op_token\<close> (\<^verbatim>\<open>op_code_token\<close> in the source) that the function does not assign keep their values, and the
  operand groups are appended to \<open>selectable_tokens\<close>. \<^verbatim>\<open>kOpCodeColumnIndent.size()\<close> is 5.
\<close>

definition ParseSelectableTokens ::
  "string \<Rightarrow> Token \<Rightarrow> string list \<Rightarrow> Token list list \<Rightarrow> real
     \<Rightarrow> error + (Token \<times> Token list list)" where
  "ParseSelectableTokens op_code op_token operands selectable_tokens
       fixed_character_width =
     (let token_width = fixed_character_width * real (length op_code);
          op_token = op_token
            \<lparr> type := kTypeCount, is_selectable := True, token_text := op_code,
              x_position_start := fixed_character_width * 5 \<rparr>;
          op_token = op_token
            \<lparr> x_position_end := x_position_start op_token + token_width \<rparr>;
          is_branch_instruction =
            (str_find op_code kUnconditionalBranchString \<noteq> None
             \<or> str_find op_code kConditionalBranchString \<noteq> None)
      in bind_result
           (parse_operands is_branch_instruction fixed_character_width operands
              (0, 0, token_width))
           (\<lambda>groups. Inr (op_token, selectable_tokens @ groups)))"

subsection \<open>Model indices: \<^verbatim>\<open>rowCount\<close>, \<^verbatim>\<open>index\<close>, \<^verbatim>\<open>parent\<close>\<close>

text \<open>
  A \<^verbatim>\<open>QModelIndex\<close>. The internal pointer of a child index points to its parent block;
  it is modelled by the place of that block in \<^verbatim>\<open>blocks_\<close>. \<open>model\<close> tells whether the
  index belongs to a model: the default-constructed \<^verbatim>\<open>QModelIndex()\<close> has row and column
  \<open>-1\<close> and no model.
\<close>

record QModelIndex =
  row :: int
  column :: int
  internalPointer :: "nat option"
  model :: bool

definition QModelIndex_invalid :: QModelIndex where
  "QModelIndex_invalid = \<lparr> row = - 1, column = - 1, internalPointer = None, model = False \<rparr>"

definition isValid :: "QModelIndex \<Rightarrow> bool" where
  "isValid idx = (0 \<le> row idx \<and> 0 \<le> column idx \<and> model idx)"

definition createIndex :: "int \<Rightarrow> int \<Rightarrow> nat option \<Rightarrow> QModelIndex" where
  "createIndex r c p = \<lparr> row = r, column = c, internalPointer = p, model = True \<rparr>"

text \<open>\<^verbatim>\<open>static_cast<int>\<close> of a container size, and the conversion of a \<^verbatim>\<open>uint32_t\<close>
  to \<^verbatim>\<open>int\<close>.\<close>

definition size_to_int :: "nat \<Rightarrow> int" where
  "size_to_int n = sint (word_of_nat n :: 32 word)"

definition uint32_to_int :: "32 word \<Rightarrow> int" where
  "uint32_to_int w = sint w"

text \<open>\<^verbatim>\<open>std::vector::at\<close> with an \<^verbatim>\<open>int\<close> argument: a negative index converts to a huge
  \<^verbatim>\<open>size_t\<close>, so it is out of range as well.\<close>

definition vector_at :: "'a list \<Rightarrow> int \<Rightarrow> error + 'a" where
  "vector_at xs i = (if 0 \<le> i \<and> nat i < length xs then Inr (xs ! nat i)
                     else Inl std_out_of_range)"

definition kColumnCount :: int where
  "kColumnCount = 5"

definition kOpCode :: int where
  "kOpCode = 2"

definition kOperands :: int where
  "kOperands = 3"

definition columnCount :: "IsaItemModel \<Rightarrow> QModelIndex \<Rightarrow> int" where
  "columnCount m parent_index = kColumnCount"

text \<open>\<^verbatim>\<open>IsaItemModel::parent\<close>. A child index that points to no block of the model is a
  dangling pointer.\<close>

definition parent :: "IsaItemModel \<Rightarrow> QModelIndex \<Rightarrow> error + QModelIndex" where
  "parent m idx =
     (if \<not> isValid idx then Inr QModelIndex_invalid
      else case internalPointer idx of
             Some code_block \<Rightarrow>
               if code_block < length (blocks m)
               then Inr (createIndex (position (blocks m ! code_block)) 0 None)
               else Inl undefined_behaviour
           | None \<Rightarrow> Inr QModelIndex_invalid)"

definition rowCount :: "IsaItemModel \<Rightarrow> QModelIndex \<Rightarrow> error + int" where
  "rowCount m parent_index =
     (if 0 < column parent_index then Inr 0
      else if \<not> isValid parent_index then Inr (size_to_int (length (blocks m)))
      else bind_result (parent m parent_index) (\<lambda>grand_parent.
        if \<not> isValid grand_parent then
          bind_result (vector_at (blocks m) (row parent_index)) (\<lambda>block.
            Inr (size_to_int (length (instruction_lines block))))
        else Inr 0))"

text \<open>\<^verbatim>\<open>QAbstractItemModel::hasIndex\<close> of Qt: false for a negative row or column,
  otherwise \<^verbatim>\<open>row < rowCount(parent) && column < columnCount(parent)\<close>.\<close>

definition hasIndex :: "IsaItemModel \<Rightarrow> int \<Rightarrow> int \<Rightarrow> QModelIndex \<Rightarrow> error + bool" where
  "hasIndex m r c parent_index =
     (if r < 0 \<or> c < 0 then Inr False
      else bind_result (rowCount m parent_index) (\<lambda>n.
        Inr (r < n \<and> c < columnCount m parent_index)))"

definition index :: "IsaItemModel \<Rightarrow> int \<Rightarrow> int \<Rightarrow> QModelIndex \<Rightarrow> error + QModelIndex" where
  "index m r c parent_index =
     bind_result (hasIndex m r c parent_index) (\<lambda>has.
       if \<not> has then Inr QModelIndex_invalid
       else if \<not> isValid parent_index then Inr (createIndex r c None)
       else Inr (createIndex r c (Some (nat (row parent_index)))))"

subsection \<open>\<^verbatim>\<open>CacheSizeHints\<close>, \<^verbatim>\<open>ColumnSizeHint\<close>, \<^verbatim>\<open>GetLineNumberModelIndex\<close>\<close>

text \<open>The text of the operands column: the tokens of one operand joined by
  \<^verbatim>\<open>kOperandTokenSpace\<close>, the operands joined by \<^verbatim>\<open>kOperandDelimiter\<close>.\<close>

fun join_with :: "string \<Rightarrow> string list \<Rightarrow> string" where
  "join_with sep [] = []"
| "join_with sep [x] = x"
| "join_with sep (x # y # ys) = x @ sep @ join_with sep (y # ys)"

definition operands_string :: "Token list list \<Rightarrow> string" where
  "operands_string operand_token_groups =
     join_with '', '' (map (\<lambda>operand_group. join_with '' '' (map token_text operand_group))
                        operand_token_groups)"

text \<open>The number of characters of \<^verbatim>\<open>QString::number(line_number)\<close>.\<close>

fun number_size :: "nat \<Rightarrow> nat" where
  "number_size n = (if n < 10 then 1 else Suc (number_size (n div 10)))"

declare number_size.simps [simp del]

text \<open>
  The inner loop of \<^verbatim>\<open>CacheSizeHints\<close> over the rows of one block. The state is the
  line index and the four running maxima
  \<open>(max_pc_address_length, max_op_code_length, max_operand_length,
  max_binary_representation_length)\<close>.
\<close>

type_synonym cache_state = "(32 word \<times> 32 word) list \<times> real \<times> real \<times> real \<times> real"

fun cache_rows :: "nat \<Rightarrow> nat \<Rightarrow> Row list \<Rightarrow> cache_state \<Rightarrow> cache_state" where
  "cache_rows code_block_index instruction_index [] st = st"
| "cache_rows code_block_index instruction_index (instruction # rest)
       (indices, max_pc, max_op, max_operand, max_binary) =
     (let indices = indices @ [(word_of_nat code_block_index, word_of_nat instruction_index)]
      in case instruction of
           CommentRow _ _ \<Rightarrow>
             cache_rows code_block_index (Suc instruction_index) rest
               (indices, max_pc, max_op, max_operand, max_binary)
         | InstructionRow _ op ops pc bin _ \<Rightarrow>
             cache_rows code_block_index (Suc instruction_index) rest
               (indices,
                max max_pc (real (length pc)),
                max max_op (real (length (token_text op))),
                max max_operand (real (length (operands_string ops))),
                max max_binary (real (length bin))))"

fun cache_blocks :: "nat \<Rightarrow> Block list \<Rightarrow> cache_state \<Rightarrow> cache_state" where
  "cache_blocks code_block_index [] st = st"
| "cache_blocks code_block_index (code_block # rest)
       (indices, maxima) =
     cache_blocks (Suc code_block_index) rest
       (cache_rows code_block_index 0 (instruction_lines code_block)
          (indices @ [(- 1, word_of_nat code_block_index)], maxima))"

text \<open>\<^verbatim>\<open>static_cast<uint32_t>(std::ceil(length * fixed_font_character_width))\<close>\<close>

definition text_width :: "real \<Rightarrow> real \<Rightarrow> 32 word" where
  "text_width len character_width = word_of_int \<lceil>len * character_width\<rceil>"

definition CacheSizeHints :: "IsaItemModel \<Rightarrow> IsaItemModel" where
  "CacheSizeHints m =
     (let m = m \<lparr> column_widths := [0, 0, 0, 0, 0],
                  line_number_corresponding_indices := [] \<rparr>;
          line_number =
            (if blocks m \<noteq> [] \<and> instruction_lines (last (blocks m)) \<noteq> []
             then line_number (last (instruction_lines (last (blocks m)))) else 0);
          padding_length = 1;
          max_line_number_length = padding_length + real (number_size (unat line_number))
      in if blocks m = [] then m
         else case cache_blocks 0 (blocks m) ([], 0, 0, 0, 0) of
           (indices, max_pc_address_length, max_op_code_length, max_operand_length,
            max_binary_representation_length) \<Rightarrow>
             let w = fixed_font_character_width m
             in m \<lparr> line_number_corresponding_indices := indices,
                    column_widths :=
                      [text_width max_line_number_length w,
                       text_width (max_pc_address_length + padding_length) w,
                       text_width (max_op_code_length + (padding_length + 5)) w,
                       text_width (max_operand_length + padding_length) w,
                       text_width (max_binary_representation_length + padding_length) w] \<rparr>)"

text \<open>
  \<^verbatim>\<open>ColumnSizeHint\<close> returns a \<^verbatim>\<open>QSize\<close>, here \<open>(width, height)\<close>. \<open>font_height\<close> stands
  for \<^verbatim>\<open>QFontMetricsF(fixed_font_, tree).height()\<close>; the conversion of a positive
  \<^verbatim>\<open>qreal\<close> to \<^verbatim>\<open>int\<close> truncates.
\<close>

definition ColumnSizeHint :: "IsaItemModel \<Rightarrow> real \<Rightarrow> int \<Rightarrow> int \<times> int" where
  "ColumnSizeHint m font_height column_index =
     (if column_index < 0 \<or> kColumnCount \<le> column_index then (0, 0)
      else (uint32_to_int (column_widths m ! nat column_index), \<lfloor>font_height + 2\<rfloor>))"

definition GetLineCount :: "IsaItemModel \<Rightarrow> int" where
  "GetLineCount m = size_to_int (length (line_number_corresponding_indices m))"

definition GetLineNumberModelIndex :: "IsaItemModel \<Rightarrow> int \<Rightarrow> error + QModelIndex" where
  "GetLineNumberModelIndex m line_number_arg =
     (if line_number_arg < 0
         \<or> size_to_int (length (line_number_corresponding_indices m)) \<le> line_number_arg
      then Inr QModelIndex_invalid
      else bind_result (vector_at (line_number_corresponding_indices m) line_number_arg)
        (\<lambda>row_pair.
           let parent_row = fst row_pair; child_row = snd row_pair
           in bind_result (index m (uint32_to_int parent_row) 0 QModelIndex_invalid)
                (\<lambda>parent_index. index m (uint32_to_int child_row) 0 parent_index)))"

subsection \<open>\<^verbatim>\<open>ClearBranchInstructionMapping\<close> and \<^verbatim>\<open>MapBlocksToBranchInstructions\<close>\<close>

fun clear_mapped :: "Block \<Rightarrow> Block" where
  "clear_mapped (CommentBlock p l rows t) = CommentBlock p l rows t"
| "clear_mapped (InstructionBlock p l rows t mapped) = InstructionBlock p l rows t []"

definition ClearBranchInstructionMapping :: "IsaItemModel \<Rightarrow> IsaItemModel" where
  "ClearBranchInstructionMapping m = m \<lparr> blocks := map clear_mapped (blocks m) \<rparr>"

text \<open>The first loop: \<^verbatim>\<open>code_block_label_to_index_[label] = code_block->position\<close> for
  every code block, in order; a later block with the same label overwrites the entry.\<close>

fun build_label_map :: "Block list \<Rightarrow> (string \<rightharpoonup> int) \<Rightarrow> (string \<rightharpoonup> int)" where
  "build_label_map [] label_to_index = label_to_index"
| "build_label_map (CommentBlock _ _ _ _ # rest) label_to_index =
     build_label_map rest label_to_index"
| "build_label_map (InstructionBlock p _ _ t _ # rest) label_to_index =
     build_label_map rest (label_to_index(token_text t \<mapsto> p))"

text \<open>The loops of a pass that may throw: \<open>fold_result\<close> stops at the first error.\<close>

fun fold_result :: "('a \<Rightarrow> 's \<Rightarrow> error + 's) \<Rightarrow> 'a list \<Rightarrow> 's \<Rightarrow> error + 's" where
  "fold_result f [] s = Inr s"
| "fold_result f (x # xs) s = bind_result (f x s) (fold_result f xs)"

text \<open>\<^verbatim>\<open>mapped_branch_instructions.emplace_back(...)\<close> on a code block, and the assignment
  \<^verbatim>\<open>operand_tokens.front().front().start_register_index = ...\<close> on an instruction.\<close>

fun emplace_back_mapped :: "32 word \<times> 32 word \<Rightarrow> Block \<Rightarrow> Block" where
  "emplace_back_mapped pair (InstructionBlock p l rows t mapped) =
     InstructionBlock p l rows t (mapped @ [pair])"
| "emplace_back_mapped pair (CommentBlock p l rows t) = CommentBlock p l rows t"

fun set_branch_target :: "int \<Rightarrow> Row \<Rightarrow> Row" where
  "set_branch_target target (InstructionRow l op ((t # ts) # groups) pc bin en) =
     InstructionRow l op ((t \<lparr> start_register_index := target \<rparr> # ts) # groups) pc bin en"
| "set_branch_target target r = r"

fun set_instruction_line :: "nat \<Rightarrow> Row \<Rightarrow> Block \<Rightarrow> Block" where
  "set_instruction_line i r (InstructionBlock p l rows t mapped) =
     InstructionBlock p l (rows[i := r]) t mapped"
| "set_instruction_line i r (CommentBlock p l rows t) = CommentBlock p l (rows[i := r]) t"

text \<open>
  The body of the inner loop of the second pass, for the row \<open>instruction_index\<close> of the
  code block \<open>block_index\<close>. \<open>blocks_.at(branch_target_block_index)\<close> throws when the
  position stored in the label map is no index of \<^verbatim>\<open>blocks_\<close>; the
  \<^verbatim>\<open>static_pointer_cast\<close> to \<^verbatim>\<open>InstructionBlock\<close> of a comment block is undefined.
\<close>

definition map_instruction ::
  "(string \<rightharpoonup> int) \<Rightarrow> nat \<Rightarrow> nat \<Rightarrow> Block list \<Rightarrow> error + Block list" where
  "map_instruction label_to_index block_index instruction_index bs =
     (case instruction_lines (bs ! block_index) ! instruction_index of
        CommentRow _ _ \<Rightarrow> Inr bs
      | InstructionRow l op ops pc bin en \<Rightarrow>
          let op_code_text = token_text op;
              is_branch = (str_find op_code_text kUnconditionalBranchString \<noteq> None
                           \<or> str_find op_code_text kConditionalBranchString \<noteq> None)
          in if is_branch \<and> ops \<noteq> [] \<and> hd ops \<noteq> [] then
               (case label_to_index (token_text (hd (hd ops))) of
                  None \<Rightarrow> Inr bs
                | Some branch_target_block_index \<Rightarrow>
                    bind_result (vector_at bs branch_target_block_index)
                      (\<lambda>branch_target_block.
                         case branch_target_block of
                           CommentBlock _ _ _ _ \<Rightarrow> Inl undefined_behaviour
                         | InstructionBlock _ _ _ _ _ \<Rightarrow>
                             let bs = bs[nat branch_target_block_index :=
                                        emplace_back_mapped
                                          (word_of_nat block_index, word_of_nat instruction_index)
                                          (bs ! nat branch_target_block_index)];
                                 instruction = instruction_lines (bs ! block_index) ! instruction_index
                             in Inr (bs[block_index :=
                                       set_instruction_line instruction_index
                                         (set_branch_target branch_target_block_index instruction)
                                         (bs ! block_index)])))
             else Inr bs)"

definition map_block :: "(string \<rightharpoonup> int) \<Rightarrow> nat \<Rightarrow> Block list \<Rightarrow> error + Block list" where
  "map_block label_to_index block_index bs =
     (case bs ! block_index of
        CommentBlock _ _ _ _ \<Rightarrow> Inr bs
      | InstructionBlock _ _ rows _ _ \<Rightarrow>
          fold_result (map_instruction label_to_index block_index) [0..<length rows] bs)"

definition MapBlocksToBranchInstructions :: "IsaItemModel \<Rightarrow> error + IsaItemModel" where
  "MapBlocksToBranchInstructions m =
     (if blocks m = [] then Inr m
      else
        let m = ClearBranchInstructionMapping m;
            m = m \<lparr> code_block_label_to_index := Map.empty \<rparr>;
            m = m \<lparr> code_block_label_to_index :=
                       build_label_map (blocks m) (code_block_label_to_index m) \<rparr>
        in bind_result
             (fold_result (map_block (code_block_label_to_index m))
                [0..<length (blocks m)] (blocks m))
             (\<lambda>bs. Inr (m \<lparr> blocks := bs, code_block_label_to_index := Map.empty \<rparr>)))"

subsection \<open>\<^verbatim>\<open>data(index, kBranchIndexRole)\<close>\<close>

text \<open>The loop over \<^verbatim>\<open>mapped_branch_instructions\<close> of a code block label.\<close>

fun branch_instruction_indices ::
  "IsaItemModel \<Rightarrow> (32 word \<times> 32 word) list \<Rightarrow> error + QModelIndex list" where
  "branch_instruction_indices m [] = Inr []"
| "branch_instruction_indices m (mapped_branch_instruction # rest) =
     (let label_code_block_index = uint32_to_int (fst mapped_branch_instruction);
          label_instruction_index = uint32_to_int (snd mapped_branch_instruction)
      in bind_result (index m label_code_block_index 0 QModelIndex_invalid) (\<lambda>block_index.
         bind_result (index m label_instruction_index 0 block_index) (\<lambda>branch_label_index.
         bind_result (branch_instruction_indices m rest) (\<lambda>branch_label_indices.
           Inr (branch_label_index # branch_label_indices)))))"

definition data_kBranchIndexRole :: "IsaItemModel \<Rightarrow> QModelIndex \<Rightarrow> error + QModelIndex list" where
  "data_kBranchIndexRole m idx =
     (if column idx = kOpCode then
        bind_result (parent m idx) (\<lambda>parent_index.
          if \<not> isValid parent_index then
            bind_result (vector_at (blocks m) (row idx)) (\<lambda>block.
              case block of
                CommentBlock _ _ _ _ \<Rightarrow> Inr []
              | InstructionBlock _ _ _ _ mapped \<Rightarrow> branch_instruction_indices m mapped)
          else Inr [])
      else if column idx = kOperands then
        bind_result (parent m idx) (\<lambda>parent_index.
          if isValid parent_index then
            bind_result (vector_at (blocks m) (row parent_index)) (\<lambda>block.
            bind_result (vector_at (instruction_lines block) (row idx)) (\<lambda>r.
              case r of
                CommentRow _ _ \<Rightarrow> Inr []
              | InstructionRow _ _ ops _ _ _ \<Rightarrow>
                  if ops \<noteq> [] \<and> hd ops \<noteq> [] then
                    (let t = hd (hd ops)
                     in if type t = kBranchLabelType \<and> start_register_index t \<noteq> - 1
                        then bind_result (index m (start_register_index t) 0 QModelIndex_invalid)
                               (\<lambda>label_index. Inr [label_index])
                        else Inr [])
                  else Inr []))
          else Inr [])
      else Inr [])"

subsection \<open>The model after construction\<close>

text \<open>The constructor \<^verbatim>\<open>IsaItemModel::IsaItemModel\<close>: no blocks, character width 0,
  line numbers visible, column widths \<^verbatim>\<open>{0, 0, 0, 0, 0}\<close>.\<close>

definition IsaItemModel_init :: IsaItemModel where
  "IsaItemModel_init =
     \<lparr> blocks = [], code_block_label_to_index = Map.empty, fixed_font_character_width = 0,
       line_numbers_visible = True, column_widths = [0, 0, 0, 0, 0],
       line_number_corresponding_indices = [] \<rparr>"

section \<open>Queries out of range\<close>

text \<open>
  C9. In every state of the model, \<^verbatim>\<open>GetLineNumberModelIndex\<close> returns the invalid index
  \<^verbatim>\<open>QModelIndex()\<close>, without throwing, for a line number below 0 or not below the line
  count, and \<^verbatim>\<open>ColumnSizeHint\<close> returns the size \<open>(0, 0)\<close> for a column below 0 or not
  below \<^verbatim>\<open>kColumnCount\<close>. For a document with no blocks the line count after
  \<^verbatim>\<open>CacheSizeHints\<close> is 0, so every line number is out of range.
\<close>

theorem out_of_range_queries:
  "(line_number_arg < 0 \<or> GetLineCount m \<le> line_number_arg \<longrightarrow>
      GetLineNumberModelIndex m line_number_arg = Inr QModelIndex_invalid)
   \<and> \<not> isValid QModelIndex_invalid
   \<and> (column_index < 0 \<or> kColumnCount \<le> column_index \<longrightarrow>
        ColumnSizeHint m font_height column_index = (0, 0))
   \<and> (blocks m = [] \<longrightarrow>
        GetLineCount (CacheSizeHints m) = 0
        \<and> GetLineNumberModelIndex (CacheSizeHints m) line_number_arg = Inr QModelIndex_invalid)"
proof -
  have a: "line_number_arg < 0 \<or> GetLineCount m \<le> line_number_arg \<longrightarrow>
      GetLineNumberModelIndex m line_number_arg = Inr QModelIndex_invalid"
    by (simp add: GetLineNumberModelIndex_def GetLineCount_def)
  have b: "\<not> isValid QModelIndex_invalid"
    by (simp add: isValid_def QModelIndex_invalid_def)
  have c: "column_index < 0 \<or> kColumnCount \<le> column_index \<longrightarrow>
        ColumnSizeHint m font_height column_index = (0, 0)"
    by (simp add: ColumnSizeHint_def)
  have d: "blocks m = [] \<longrightarrow> GetLineCount (CacheSizeHints m) = 0
        \<and> GetLineNumberModelIndex (CacheSizeHints m) line_number_arg = Inr QModelIndex_invalid"
  proof
    assume e: "blocks m = []"
    have lc: "GetLineCount (CacheSizeHints m) = 0"
      using e by (simp add: CacheSizeHints_def GetLineCount_def size_to_int_def Let_def)
    then have "line_number_arg < 0 \<or> GetLineCount (CacheSizeHints m) \<le> line_number_arg"
      by linarith
    then have "GetLineNumberModelIndex (CacheSizeHints m) line_number_arg
                 = Inr QModelIndex_invalid"
      by (simp add: GetLineNumberModelIndex_def GetLineCount_def)
    with lc show "GetLineCount (CacheSizeHints m) = 0
        \<and> GetLineNumberModelIndex (CacheSizeHints m) line_number_arg = Inr QModelIndex_invalid"
      by simp
  qed
  from a b c d show ?thesis by blast
qed

theorem out_of_range_queries_witness:
  "GetLineNumberModelIndex IsaItemModel_init (- 1) = Inr QModelIndex_invalid
   \<and> GetLineNumberModelIndex IsaItemModel_init 0 = Inr QModelIndex_invalid
   \<and> ColumnSizeHint IsaItemModel_init 12 5 = (0, 0)
   \<and> ColumnSizeHint IsaItemModel_init 12 (- 1) = (0, 0)
   \<and> GetLineNumberModelIndex (CacheSizeHints IsaItemModel_init) 0 = Inr QModelIndex_invalid"
  using out_of_range_queries [of "- 1" IsaItemModel_init 5 12]
    out_of_range_queries [of 0 IsaItemModel_init "- 1" 12]
  by (simp add: IsaItemModel_init_def GetLineCount_def size_to_int_def kColumnCount_def)

section \<open>The token classifier\<close>

subsection \<open>Notions used in the statements\<close>

text \<open>A non-empty run of decimal digits: the words of \<^verbatim>\<open>[0-9]+\<close>.\<close>

definition digits :: "string \<Rightarrow> bool" where
  "digits ds = (ds \<noteq> [] \<and> list_all isdigit ds)"

text \<open>The condition under which both functions treat an op code as a branch.\<close>

definition is_branch_op_code :: "string \<Rightarrow> bool" where
  "is_branch_op_code op_code =
     (str_find op_code kUnconditionalBranchString \<noteq> None
      \<or> str_find op_code kConditionalBranchString \<noteq> None)"

text \<open>The fields of a token other than its hit box.\<close>

definition token_fields :: "Token \<Rightarrow> string \<times> TokenType \<times> int \<times> int \<times> bool" where
  "token_fields t =
     (token_text t, type t, start_register_index t, end_register_index t, is_selectable t)"

text \<open>The op code token that \<^verbatim>\<open>ParseSelectableTokens\<close> returns.\<close>

definition parsed_op_code_token :: "string \<Rightarrow> Token \<Rightarrow> real \<Rightarrow> Token" where
  "parsed_op_code_token op_code op_token w =
     op_token \<lparr> type := kTypeCount, is_selectable := True, token_text := op_code,
                x_position_start := w * 5,
                x_position_end := w * 5 + w * real (length op_code) \<rparr>"

text \<open>The flags \<^verbatim>\<open>is_scalar_register\<close> and \<^verbatim>\<open>is_vector_register\<close> after the three
  matches each.\<close>

definition is_single_scalar :: "string \<Rightarrow> bool" where
  "is_single_scalar t =
     (exact_match kScalarRegisterExpression t
      \<or> exact_match kScalarPairStartRegisterExpression t
      \<or> exact_match kScalarPairEndRegisterExpression t)"

definition is_single_vector :: "string \<Rightarrow> bool" where
  "is_single_vector t =
     (exact_match kVectorRegisterExpression t
      \<or> exact_match kVectorPairStartRegisterExpression t
      \<or> exact_match kVectorPairEndRegisterExpression t)"

text \<open>The token of the word \<^verbatim>\<open>v[4:7]\<close>, as the first operand at character width 8.\<close>

definition vector_range_token :: Token where
  "vector_range_token =
     \<lparr> token_text = ''v[4:7]'', type = kVectorRegisterType, start_register_index = 4,
       end_register_index = 7, x_position_start = 0, x_position_end = 48,
       is_selectable = True \<rparr>"

text \<open>The body of the loop throws on the word \<open>tok\<close> of an instruction that is no branch:
  \<^verbatim>\<open>std::stoi\<close> on a register number that does not fit an \<^verbatim>\<open>int\<close>.\<close>

definition throws :: "string \<Rightarrow> bool" where
  "throws tok = (case classify_token False tok of Inl _ \<Rightarrow> True | Inr _ \<Rightarrow> False)"

text \<open>The words of an operand: what \<^verbatim>\<open>Split(operand, " ", tokens)\<close> gives.\<close>

definition operand_words :: "string \<Rightarrow> string list" where
  "operand_words operand = (case Split operand '' '' of None \<Rightarrow> [] | Some toks \<Rightarrow> toks)"

text \<open>No word of the operands makes the body of the loop throw.\<close>

definition no_word_throws :: "string list \<Rightarrow> bool" where
  "no_word_throws operands =
     list_all (\<lambda>operand. list_all (\<lambda>tok. \<not> throws tok) (operand_words operand)) operands"

text \<open>The length of the longest run of digits in a word.\<close>

fun longest_digit_run :: "string \<Rightarrow> nat" where
  "longest_digit_run [] = 0"
| "longest_digit_run (c # cs) =
     max (length (takeWhile isdigit (c # cs))) (longest_digit_run cs)"

text \<open>The match that \<open>rx_run\<close> lists first.\<close>

definition rx_first :: "regex \<Rightarrow> string \<times> captures \<Rightarrow> string \<times> captures \<Rightarrow> bool" where
  "rx_first r st y = (\<exists>more. rx_run r st = y # more)"

subsection \<open>Matching\<close>

lemma rx_match_start: "rx_match r s k = Some (a, b) \<Longrightarrow> k \<le> a"
  by (induction s arbitrary: k) (auto split: list.splits dest: Suc_leD)

lemma exact_match_first: "rx_first r (t, []) ([], cs) \<Longrightarrow> exact_match r t"
  by (cases t) (auto simp: rx_first_def exact_match_def)

lemma exact_match_nil: "rx_run r (t, []) = [] \<Longrightarrow> \<not> exact_match r t"
  by (cases t) (auto simp: exact_match_def dest: rx_match_start)

lemma rx_first_Seq: "rx_first r1 st x \<Longrightarrow> rx_first r2 x y \<Longrightarrow> rx_first (Seq r1 r2) st y"
  by (auto simp: rx_first_def)

lemma rx_first_Chr: "rx_first (Chr c) (c # s, cs) (s, cs)"
  by (simp add: rx_first_def)

lemma rx_first_Group:
  "rx_first r (s, cs) (s', cs') \<Longrightarrow>
   rx_first (Group n r) (s, cs) (s', (n, take (length s - length s') s) # cs')"
  by (auto simp: rx_first_def)

lemma takeWhile_run:
  "list_all P ds \<Longrightarrow> rest = [] \<or> \<not> P (hd rest) \<Longrightarrow> takeWhile P (ds @ rest) = ds"
  by (induction ds) (auto simp: takeWhile_eq_Nil_iff neq_Nil_conv)

lemma rx_first_Plus:
  assumes "list_all (in_class k) ds" "ds \<noteq> []" "rest = [] \<or> \<not> in_class k (hd rest)"
  shows "rx_first (Plus k) (ds @ rest, cs) (rest, cs)"
proof -
  have tw: "takeWhile (in_class k) (ds @ rest) = ds"
    using assms by (simp add: takeWhile_run)
  have "1 \<le> length ds" using assms(2) by (simp add: Suc_le_eq)
  then have "rev [1..<Suc (length ds)] = length ds # rev [1..<length ds]"
    by simp
  then show ?thesis
    by (simp add: rx_first_def tw)
qed

lemma rx_first_Plus_end:
  "digits ds \<Longrightarrow> rx_first (Plus kDigit) (ds, cs) ([], cs)"
  using rx_first_Plus [of kDigit ds "[]" cs] by (simp add: digits_def list_all_iff)

lemma rx_first_Plus_digits:
  "digits ds \<Longrightarrow> \<not> isdigit c \<Longrightarrow> rx_first (Plus kDigit) (ds @ c # rest, cs) (c # rest, cs)"
  using rx_first_Plus [of kDigit ds "c # rest" cs] by (simp add: digits_def list_all_iff)

lemma rx_first_register:
  assumes "digits ds"
  shows "rx_first (Group n (Seq (Chr c) (Plus kDigit))) (c # ds, cs) ([], (n, c # ds) # cs)"
proof -
  have "rx_first (Seq (Chr c) (Plus kDigit)) (c # ds, cs) ([], cs)"
    by (rule rx_first_Seq [OF rx_first_Chr rx_first_Plus_end [OF assms]])
  from rx_first_Group [OF this, of n] show ?thesis by simp
qed

lemma rx_run_length:
  "(rest, cs') \<in> set (rx_run r (s, cs)) \<Longrightarrow> length rest \<le> length s"
proof (induction r arbitrary: s cs rest cs')
  case (Chr c)
  then show ?case by (cases s) (auto split: if_splits)
next
  case (One k)
  then show ?case by (cases s) (auto split: if_splits)
next
  case (Opt r)
  then show ?case by auto
next
  case (Plus k)
  then show ?case by auto
next
  case (Star k)
  then show ?case by auto
next
  case (Seq r1 r2)
  from Seq.prems obtain s1 cs1 where
    a: "(s1, cs1) \<in> set (rx_run r1 (s, cs))" and b: "(rest, cs') \<in> set (rx_run r2 (s1, cs1))"
    by auto
  from Seq.IH(1) [OF a] Seq.IH(2) [OF b] show ?case by simp
next
  case (Group n r)
  from Group.prems obtain cs1 where "(rest, cs1) \<in> set (rx_run r (s, cs))"
    by auto
  then show ?case by (rule Group.IH)
next
  case (Backref n)
  then show ?case by (auto split: option.splits if_splits)
qed

lemma exact_match_first_iff:
  "exact_match r t \<longleftrightarrow> (\<exists>cs more. rx_run r (t, []) = ([], cs) # more)"
proof
  assume e: "exact_match r t"
  show "\<exists>cs more. rx_run r (t, []) = ([], cs) # more"
  proof (cases "rx_run r (t, [])")
    case Nil
    with e exact_match_nil show ?thesis by blast
  next
    case (Cons x more)
    obtain rest cs where x: "x = (rest, cs)" by (cases x) auto
    have "(rest, cs) \<in> set (rx_run r (t, []))" using Cons x by simp
    then have le: "length rest \<le> length t" by (rule rx_run_length)
    have "rx_match r t 0 = Some (0, length t - length rest)"
      using Cons x by (cases t) auto
    with e have "length t - length rest = length t" by (simp add: exact_match_def)
    with le have "length rest = 0" by arith
    then have "rest = []" by simp
    with Cons x show ?thesis by simp
  qed
next
  assume "\<exists>cs more. rx_run r (t, []) = ([], cs) # more"
  then show "exact_match r t" by (auto intro: exact_match_first simp: rx_first_def)
qed

lemma rx_run_Chr_mem:
  "(rest, cs') \<in> set (rx_run (Chr c) (s, cs)) \<longleftrightarrow> s = c # rest \<and> cs' = cs"
  by (cases s) auto

lemma rx_run_Plus_mem:
  assumes "(rest, cs') \<in> set (rx_run (Plus kDigit) (s, cs))"
  shows "cs' = cs \<and> (\<exists>pre. digits pre \<and> s = pre @ rest)"
proof -
  let ?tw = "takeWhile (in_class kDigit) s"
  from assms obtain n where n: "1 \<le> n" "n \<le> length ?tw" and rest: "rest = drop n s"
    and cs: "cs' = cs"
    by auto
  have "take n s = take n (?tw @ dropWhile (in_class kDigit) s)" by simp
  also have "\<dots> = take n ?tw" using n(2) by (simp del: takeWhile_dropWhile_id)
  finally have tk: "take n s = take n ?tw" .
  have all: "list_all isdigit (take n s)"
    unfolding tk list_all_iff
  proof
    fix x assume "x \<in> set (take n ?tw)"
    then have "x \<in> set ?tw" by (rule in_set_takeD)
    then have "in_class kDigit x" by (rule set_takeWhileD [THEN conjunct2])
    then show "isdigit x" by simp
  qed
  have "length ?tw \<le> length s" by (rule length_takeWhile_le)
  with n have "take n s \<noteq> []" by auto
  with all have "digits (take n s)" by (simp add: digits_def)
  moreover have "s = take n s @ rest" using rest by simp
  ultimately show ?thesis using cs by blast
qed

lemma rx_run_Seq_mem:
  "(rest, cs') \<in> set (rx_run (Seq r1 r2) (s, cs)) \<Longrightarrow>
   \<exists>s1 cs1. (s1, cs1) \<in> set (rx_run r1 (s, cs)) \<and> (rest, cs') \<in> set (rx_run r2 (s1, cs1))"
  by auto

lemma range_shape:
  assumes "exact_match
     (Seq (Chr c) (Seq (Chr CHR ''['') (Seq (Plus kDigit)
       (Seq (Chr CHR '':'') (Seq (Plus kDigit) (Chr CHR '']'')))))) t"
  shows "\<exists>ds1 ds2. digits ds1 \<and> digits ds2 \<and> t = c # CHR ''['' # ds1 @ CHR '':'' # ds2 @ '']''"
proof -
  let ?r5 = "Chr CHR '']''"
  let ?r4 = "Seq (Plus kDigit) ?r5"
  let ?r3 = "Seq (Chr CHR '':'') ?r4"
  let ?r2 = "Seq (Plus kDigit) ?r3"
  let ?r1 = "Seq (Chr CHR ''['') ?r2"
  from assms obtain cs more where "rx_run (Seq (Chr c) ?r1) (t, []) = ([], cs) # more"
    unfolding exact_match_first_iff by blast
  then have m0: "([], cs) \<in> set (rx_run (Seq (Chr c) ?r1) (t, []))"
    by (metis list.set_intros(1))
  from rx_run_Seq_mem [OF m0] obtain s1 c1 where
    1: "(s1, c1) \<in> set (rx_run (Chr c) (t, []))"
    and m1: "([], cs) \<in> set (rx_run ?r1 (s1, c1))" by blast
  from rx_run_Seq_mem [OF m1] obtain s2 c2 where
    2: "(s2, c2) \<in> set (rx_run (Chr CHR ''['') (s1, c1))"
    and m2: "([], cs) \<in> set (rx_run ?r2 (s2, c2))" by blast
  from rx_run_Seq_mem [OF m2] obtain s3 c3 where
    3: "(s3, c3) \<in> set (rx_run (Plus kDigit) (s2, c2))"
    and m3: "([], cs) \<in> set (rx_run ?r3 (s3, c3))" by blast
  from rx_run_Seq_mem [OF m3] obtain s4 c4 where
    4: "(s4, c4) \<in> set (rx_run (Chr CHR '':'') (s3, c3))"
    and m4: "([], cs) \<in> set (rx_run ?r4 (s4, c4))" by blast
  from rx_run_Seq_mem [OF m4] obtain s5 c5 where
    5: "(s5, c5) \<in> set (rx_run (Plus kDigit) (s4, c4))"
    and 6: "([], cs) \<in> set (rx_run ?r5 (s5, c5))" by blast
  from 1 have t: "t = c # s1" by (simp only: rx_run_Chr_mem)
  from 2 have s1: "s1 = CHR ''['' # s2" by (simp only: rx_run_Chr_mem)
  from rx_run_Plus_mem [OF 3] obtain ds1 where d1: "digits ds1" and s2: "s2 = ds1 @ s3" by blast
  from 4 have s3: "s3 = CHR '':'' # s4" by (simp only: rx_run_Chr_mem)
  from rx_run_Plus_mem [OF 5] obtain ds2 where d2: "digits ds2" and s4: "s4 = ds2 @ s5" by blast
  from 6 have s5: "s5 = '']''" by (simp only: rx_run_Chr_mem)
  from t s1 s2 s3 s4 s5 d1 d2 show ?thesis by blast
qed

subsection \<open>Digits, \<^verbatim>\<open>std::stoi\<close>, \<^verbatim>\<open>TrimStr\<close> and \<^verbatim>\<open>Split\<close>\<close>

lemma isdigit_cases:
  "isdigit c \<Longrightarrow> \<not> is_special_char c \<and> c \<noteq> CHR ''-'' \<and> c \<noteq> CHR ''+'' \<and> c \<noteq> CHR '':''
     \<and> c \<noteq> CHR '']'' \<and> 0 \<le> digit_value c"
  by (auto simp: isdigit_def is_special_char_def digit_value_def)

lemma digits_hd: "digits ds \<Longrightarrow> ds \<noteq> [] \<and> isdigit (hd ds)"
  by (cases ds) (auto simp: digits_def)

lemma digits_notin: "digits ds \<Longrightarrow> \<not> isdigit c \<Longrightarrow> c \<notin> set ds"
  by (auto simp: digits_def list_all_iff)

lemma decimal_acc_nonneg:
  "list_all isdigit ds \<Longrightarrow> 0 \<le> acc \<Longrightarrow> 0 \<le> foldl (\<lambda>n c. 10 * n + digit_value c) acc ds"
proof (induction ds arbitrary: acc)
  case Nil
  then show ?case by simp
next
  case (Cons c ds)
  from Cons.prems have "0 \<le> digit_value c" by (simp add: isdigit_cases)
  with Cons.prems have "0 \<le> 10 * acc + digit_value c" by simp
  with Cons show ?case by simp
qed

lemma decimal_nonneg: "list_all isdigit ds \<Longrightarrow> 0 \<le> decimal ds"
  by (simp add: decimal_def decimal_acc_nonneg)

lemma stoi_digits:
  assumes "digits ds"
  shows "stoi ds = (if decimal ds \<le> 2147483647 then Inr (decimal ds) else Inl std_out_of_range)"
proof -
  from assms obtain c cs where ds: "ds = c # cs" and c: "isdigit c" and all: "list_all isdigit ds"
    by (cases ds) (auto simp: digits_def)
  have dw: "dropWhile is_special_char ds = ds"
    using ds c by (simp add: isdigit_cases)
  have tw: "takeWhile isdigit ds = ds"
    using all by (simp add: takeWhile_eq_all_conv list_all_iff)
  have hd: "hd ds \<noteq> CHR ''-''" "hd ds \<noteq> CHR ''+''"
    using ds c by (auto dest: isdigit_cases)
  have nn: "0 \<le> decimal ds" using all by (rule decimal_nonneg)
  have ne: "ds \<noteq> []" using ds by simp
  show ?thesis
    using nn by (simp add: stoi_def Let_def dw hd ne tw)
qed

lemma TrimStr_id: "s = [] \<or> (\<not> is_special_char (hd s) \<and> \<not> is_special_char (last s)) \<Longrightarrow> TrimStr s = s"
  by (cases s rule: rev_cases) (auto simp: TrimStr_def neq_Nil_conv dropWhile_eq_self_iff)

lemma digits_TrimStr: "digits ds \<Longrightarrow> TrimStr ds = ds"
proof (rule TrimStr_id)
  assume d: "digits ds"
  then have "ds \<noteq> []" by (simp add: digits_def)
  then have "hd ds \<in> set ds" "last ds \<in> set ds" by simp_all
  with d have "isdigit (hd ds)" "isdigit (last ds)" by (simp_all add: digits_def list_all_iff)
  then show "ds = [] \<or> \<not> is_special_char (hd ds) \<and> \<not> is_special_char (last ds)"
    by (simp add: isdigit_cases)
qed

lemma str_find_char: "d \<notin> set xs \<Longrightarrow> str_find (xs @ d # ys) [d] = Some (length xs)"
  by (induction xs) auto

lemma str_find_char_none: "d \<notin> set xs \<Longrightarrow> str_find xs [d] = None"
  by (induction xs) auto

lemma digits_no_colon:
  assumes "digits ds"
  shows "CHR '':'' \<notin> set ds"
proof
  assume "CHR '':'' \<in> set ds"
  with assms have "isdigit CHR '':''" by (simp add: digits_def list_all_iff)
  then show False by (simp add: isdigit_def)
qed

lemma Split_range:
  assumes d1: "digits ds1" and d2: "digits ds2"
  shows "Split (ds1 @ CHR '':'' # ds2) '':'' = Some [ds1, ds2]"
proof -
  have f1: "str_find (ds1 @ CHR '':'' # ds2) '':'' = Some (length ds1)"
    using digits_no_colon [OF d1] by (rule str_find_char)
  have f2: "str_find ds2 '':'' = None"
    using digits_no_colon [OF d2] by (rule str_find_char_none)
  have s2: "Split ds2 '':'' = Some [ds2]"
    by (subst Split.simps) (simp add: f2 digits_TrimStr [OF d2])
  show ?thesis
    by (subst Split.simps) (simp add: f1 s2 digits_TrimStr [OF d1])
qed

lemma Split_Some: "delimiter \<noteq> [] \<Longrightarrow> \<exists>ys. Split line delimiter = Some ys"
proof (induction line delimiter rule: Split.induct)
  case (1 line delimiter)
  show ?case
  proof (cases "str_find line delimiter")
    case None
    with 1 show ?thesis by (subst Split.simps) simp
  next
    case (Some pos)
    with 1 obtain ys where "Split (drop (pos + length delimiter) line) delimiter = Some ys"
      by blast
    with Some 1 show ?thesis by (subst Split.simps) simp
  qed
qed

lemma Split_word:
  "CHR '' '' \<notin> set t \<Longrightarrow> TrimStr t = t \<Longrightarrow> Split t '' '' = Some [t]"
  by (subst Split.simps) (simp add: str_find_char_none)

subsection \<open>One word\<close>

lemma if_not_or: "(if \<not> a then a \<or> b else a) = (a \<or> b)"
  by auto

lemma classify_token_flags:
  "classify_token False t =
     token_of_flags t (is_single_scalar t) (is_single_vector t)
       (exact_match kScalarRegisterRangeExpression t)
       (exact_match kVectorRegisterRangeExpression t)
       (exact_match kConstantExpression t)"
  by (simp add: classify_token_def Let_def if_not_or is_single_scalar_def
      is_single_vector_def)

lemma exact_scalar:
  assumes d: "digits ds" and s: "sign = [] \<or> sign = ''-''"
  shows "exact_match kScalarRegisterExpression (sign @ CHR ''s'' # ds)"
proof -
  have g1: "rx_first (Group 1 (Opt (Chr CHR ''-''))) (sign @ CHR ''s'' # ds, [])
              (CHR ''s'' # ds, [(1, sign)])"
    using s by (auto simp: rx_first_def)
  have g2: "rx_first (Group 2 (Opt (Chr CHR ''|''))) (CHR ''s'' # ds, [(1, sign)])
              (CHR ''s'' # ds, [(2, []), (1, sign)])"
    by (simp add: rx_first_def)
  have g3: "rx_first (Group 3 (Seq (Chr CHR ''s'') (Plus kDigit)))
              (CHR ''s'' # ds, [(2, []), (1, sign)])
              ([], [(3, CHR ''s'' # ds), (2, []), (1, sign)])"
    by (rule rx_first_register [OF d])
  have g4: "rx_first (Group 4 (Backref 2)) ([], [(3, CHR ''s'' # ds), (2, []), (1, sign)])
              ([], [(4, []), (3, CHR ''s'' # ds), (2, []), (1, sign)])"
    by (simp add: rx_first_def)
  have "rx_first kScalarRegisterExpression (sign @ CHR ''s'' # ds, [])
          ([], [(4, []), (3, CHR ''s'' # ds), (2, []), (1, sign)])"
    unfolding kScalarRegisterExpression_def
    by (rule rx_first_Seq [OF g1 rx_first_Seq [OF g2 rx_first_Seq [OF g3 g4]]])
  then show ?thesis by (rule exact_match_first)
qed

lemma after_s:
  "sign = [] \<or> sign = ''-'' \<Longrightarrow> after_register_character (sign @ CHR ''s'' # ds) ''s'' = ds"
  by (auto simp: after_register_character_def)

lemma classify_scalar_register:
  assumes d: "digits ds" and r: "decimal ds \<le> 2147483647" and s: "sign = [] \<or> sign = ''-''"
  shows "classify_token False (sign @ CHR ''s'' # ds) =
           Inr (Clear \<lparr> token_text := sign @ CHR ''s'' # ds, type := kScalarRegisterType,
                        start_register_index := decimal ds, is_selectable := True \<rparr>)"
proof -
  have e: "is_single_scalar (sign @ CHR ''s'' # ds)"
    using exact_scalar [OF d s] by (simp add: is_single_scalar_def)
  have st: "stoi ds = Inr (decimal ds)" using d r by (simp add: stoi_digits)
  show ?thesis
    unfolding classify_token_flags
    using digits_hd [OF d]
    by (simp add: token_of_flags_def Let_def e after_s [OF s] st bind_result_def Clear_def)
qed

lemma exact_scalar_range:
  assumes d1: "digits ds1" and d2: "digits ds2"
  shows "exact_match kScalarRegisterRangeExpression
           (CHR ''s'' # CHR ''['' # ds1 @ CHR '':'' # ds2 @ '']'')"
proof -
  have nd: "\<not> isdigit CHR '':''" "\<not> isdigit CHR '']''"
    by (simp_all add: isdigit_def)
  have p1: "rx_first (Plus kDigit) (ds1 @ CHR '':'' # ds2 @ '']'', [])
              (CHR '':'' # ds2 @ '']'', [])"
    by (rule rx_first_Plus_digits [OF d1 nd(1)])
  have p2: "rx_first (Plus kDigit) (ds2 @ '']'', []) ('']'', [])"
    by (rule rx_first_Plus_digits [OF d2 nd(2)])
  have "rx_first kScalarRegisterRangeExpression
          (CHR ''s'' # CHR ''['' # ds1 @ CHR '':'' # ds2 @ '']'', []) ([], [])"
    unfolding kScalarRegisterRangeExpression_def
    by (rule rx_first_Seq [OF rx_first_Chr rx_first_Seq [OF rx_first_Chr
          rx_first_Seq [OF p1 rx_first_Seq [OF rx_first_Chr
          rx_first_Seq [OF p2 rx_first_Chr]]]]])
  then show ?thesis by (rule exact_match_first)
qed

lemma not_single_register_range_text:
  "\<not> is_single_scalar (CHR ''s'' # CHR ''['' # rest)"
  "\<not> is_single_vector (CHR ''s'' # CHR ''['' # rest)"
proof -
  have "\<not> exact_match kScalarRegisterExpression (CHR ''s'' # CHR ''['' # rest)"
    by (rule exact_match_nil) (simp add: kScalarRegisterExpression_def isdigit_def)
  moreover have "\<not> exact_match kScalarPairStartRegisterExpression (CHR ''s'' # CHR ''['' # rest)"
    by (rule exact_match_nil) (simp add: kScalarPairStartRegisterExpression_def)
  moreover have "\<not> exact_match kScalarPairEndRegisterExpression (CHR ''s'' # CHR ''['' # rest)"
    by (rule exact_match_nil)
      (simp add: kScalarPairEndRegisterExpression_def kScalarRegisterExpression_def isdigit_def)
  ultimately show "\<not> is_single_scalar (CHR ''s'' # CHR ''['' # rest)"
    by (simp add: is_single_scalar_def)
  have "\<not> exact_match kVectorRegisterExpression (CHR ''s'' # CHR ''['' # rest)"
    by (rule exact_match_nil) (simp add: kVectorRegisterExpression_def)
  moreover have "\<not> exact_match kVectorPairStartRegisterExpression (CHR ''s'' # CHR ''['' # rest)"
    by (rule exact_match_nil) (simp add: kVectorPairStartRegisterExpression_def)
  moreover have "\<not> exact_match kVectorPairEndRegisterExpression (CHR ''s'' # CHR ''['' # rest)"
    by (rule exact_match_nil)
      (simp add: kVectorPairEndRegisterExpression_def kVectorRegisterExpression_def)
  ultimately show "\<not> is_single_vector (CHR ''s'' # CHR ''['' # rest)"
    by (simp add: is_single_vector_def)
qed

lemma classify_scalar_register_range:
  assumes d1: "digits ds1" and d2: "digits ds2"
    and r1: "decimal ds1 \<le> 2147483647" and r2: "decimal ds2 \<le> 2147483647"
  shows "classify_token False (CHR ''s'' # CHR ''['' # ds1 @ CHR '':'' # ds2 @ '']'') =
           Inr (Clear \<lparr> token_text := CHR ''s'' # CHR ''['' # ds1 @ CHR '':'' # ds2 @ '']'',
                        type := kScalarRegisterType,
                        start_register_index := decimal ds1,
                        end_register_index := decimal ds2, is_selectable := True \<rparr>)"
proof -
  let ?t = "CHR ''s'' # CHR ''['' # ds1 @ CHR '':'' # ds2 @ '']''"
  have e: "exact_match kScalarRegisterRangeExpression ?t"
    using d1 d2 by (rule exact_scalar_range)
  have st: "stoi ds1 = Inr (decimal ds1)" "stoi ds2 = Inr (decimal ds2)"
    using d1 d2 r1 r2 by (simp_all add: stoi_digits)
  have dr: "drop 2 (butlast ?t) = ds1 @ CHR '':'' # ds2"
    by (simp add: butlast_append)
  show ?thesis
    unfolding classify_token_flags token_of_flags_def Let_def dr
    by (simp add: e not_single_register_range_text Split_range [OF d1 d2] st
        bind_result_def Clear_def)
qed

lemma token_of_flags_end:
  assumes c: "token_of_flags t s v rs rv k = Inr tok" and e: "end_register_index tok \<noteq> - 1"
  shows "(rs \<or> rv)
       \<and> (\<exists>xs. Split (drop 2 (butlast t)) '':'' = Some xs
              \<and> stoi (xs ! 0) = Inr (start_register_index tok)
              \<and> stoi (xs ! 1) = Inr (end_register_index tok))
       \<and> token_text tok = t"
proof (cases "s \<or> v")
  case True
  with c e show ?thesis
    by (auto simp: token_of_flags_def Let_def bind_result_def Clear_def
        split: if_splits sum.splits)
next
  case False
  with c e show ?thesis
    by (cases rs; cases rv; cases k)
      (auto simp: token_of_flags_def Let_def bind_result_def Clear_def
        split: if_splits sum.splits option.splits)
qed

lemma range_text:
  assumes "exact_match kScalarRegisterRangeExpression t
           \<or> exact_match kVectorRegisterRangeExpression t"
  shows "\<exists>c ds1 ds2. (c = CHR ''s'' \<or> c = CHR ''v'') \<and> digits ds1 \<and> digits ds2
           \<and> t = c # CHR ''['' # ds1 @ CHR '':'' # ds2 @ '']''"
  using assms
proof
  assume "exact_match kScalarRegisterRangeExpression t"
  from range_shape [OF this [unfolded kScalarRegisterRangeExpression_def]]
  obtain ds1 ds2 where "digits ds1" "digits ds2"
    "t = CHR ''s'' # CHR ''['' # ds1 @ CHR '':'' # ds2 @ '']''"
    by blast
  then show ?thesis by (intro exI conjI disjI1) (rule refl, assumption+)
next
  assume "exact_match kVectorRegisterRangeExpression t"
  from range_shape [OF this [unfolded kVectorRegisterRangeExpression_def]]
  obtain ds1 ds2 where "digits ds1" "digits ds2"
    "t = CHR ''v'' # CHR ''['' # ds1 @ CHR '':'' # ds2 @ '']''"
    by blast
  then show ?thesis by (intro exI conjI disjI2) (rule refl, assumption+)
qed

lemma classify_token_end:
  assumes c: "classify_token b t = Inr tok" and e: "end_register_index tok \<noteq> - 1"
  shows "\<exists>c ds1 ds2. (c = CHR ''s'' \<or> c = CHR ''v'') \<and> digits ds1 \<and> digits ds2
           \<and> token_text tok = c # CHR ''['' # ds1 @ CHR '':'' # ds2 @ '']''
           \<and> start_register_index tok = decimal ds1
           \<and> end_register_index tok = decimal ds2"
proof (cases b)
  case True
  with c have "end_register_index tok = - 1"
    by (auto simp: classify_token_def Clear_def)
  with e show ?thesis by simp
next
  case False
  with c have f: "token_of_flags t (is_single_scalar t) (is_single_vector t)
       (exact_match kScalarRegisterRangeExpression t)
       (exact_match kVectorRegisterRangeExpression t)
       (exact_match kConstantExpression t) = Inr tok"
    by (simp add: classify_token_flags)
  from token_of_flags_end [OF f e] obtain xs where
    r: "exact_match kScalarRegisterRangeExpression t
        \<or> exact_match kVectorRegisterRangeExpression t"
    and sp: "Split (drop 2 (butlast t)) '':'' = Some xs"
    and st: "stoi (xs ! 0) = Inr (start_register_index tok)"
            "stoi (xs ! 1) = Inr (end_register_index tok)"
    and tx: "token_text tok = t"
    by blast
  from range_text [OF r] obtain c ds1 ds2 where c: "c = CHR ''s'' \<or> c = CHR ''v''"
    and d1: "digits ds1" and d2: "digits ds2"
    and t: "t = c # CHR ''['' # ds1 @ CHR '':'' # ds2 @ '']''"
    by blast
  have "drop 2 (butlast t) = ds1 @ CHR '':'' # ds2"
    unfolding t by (simp add: butlast_append)
  with sp Split_range [OF d1 d2] have xs: "xs = [ds1, ds2]" by simp
  from st have se: "start_register_index tok = decimal ds1"
    "end_register_index tok = decimal ds2"
    unfolding xs by (simp_all add: stoi_digits d1 d2 split: if_splits)
  have tt: "token_text tok = c # CHR ''['' # ds1 @ CHR '':'' # ds2 @ '']''"
    using tx t by simp
  from c d1 d2 tt se show ?thesis
    by (intro exI conjI) assumption+
qed

subsection \<open>One instruction\<close>

lemma token_fields_x [simp]:
  "token_fields (t \<lparr> x_position_start := a, x_position_end := b \<rparr>) = token_fields t"
  by (simp add: token_fields_def)

lemma set_hit_boxes_fields:
  "map token_fields (fst (set_hit_boxes w ts st)) = map token_fields ts"
proof (induction ts arbitrary: st)
  case Nil
  then show ?case by simp
next
  case (Cons t ts)
  obtain sx ex tw where st: "st = (sx, ex, tw)" by (cases st) auto
  show ?case
    unfolding st by (simp add: Let_def split_beta Cons.IH)
qed

lemma classify_tokens_nth:
  "classify_tokens b toks = Inr cls \<Longrightarrow>
   length cls = length toks \<and> (\<forall>j<length toks. classify_token b (toks ! j) = Inr (cls ! j))"
proof (induction toks arbitrary: cls)
  case Nil
  then show ?case by simp
next
  case (Cons t toks)
  from Cons.prems obtain c cs where c: "classify_token b t = Inr c"
    and cs: "classify_tokens b toks = Inr cs" and cls: "cls = c # cs"
    by (auto simp: bind_result_def split: sum.splits)
  from Cons.IH [OF cs] c cls show ?case
    by (auto simp: nth_Cons split: nat.splits)
qed

lemma parse_operands_nth:
  assumes "parse_operands b w operands st = Inr groups"
  shows "length groups = length operands \<and>
     (\<forall>i<length operands. \<exists>toks cls. Split (operands ! i) '' '' = Some toks
         \<and> classify_tokens b toks = Inr cls
         \<and> map token_fields (groups ! i) = map token_fields cls)"
  using assms
proof (induction operands arbitrary: st groups)
  case Nil
  then show ?case by simp
next
  case (Cons operand operands)
  from Cons.prems obtain toks where sp: "Split operand '' '' = Some toks"
    by (auto split: option.splits)
  from Cons.prems sp obtain cls where cl: "classify_tokens b toks = Inr cls"
    by (auto simp: bind_result_def split: sum.splits)
  obtain boxed st' where hb: "set_hit_boxes w cls st = (boxed, st')"
    by (cases "set_hit_boxes w cls st") auto
  obtain sx ex tw where st': "st' = (sx, ex, tw)" by (cases st') auto
  from Cons.prems sp cl hb st' obtain rest where
    rest: "parse_operands b w operands (sx + tw + w * 2, ex + w * 2, tw) = Inr rest"
    and groups: "groups = boxed # rest"
    by (auto simp: bind_result_def split: sum.splits)
  have bf: "map token_fields boxed = map token_fields cls"
    using set_hit_boxes_fields [of w cls st] hb by simp
  from Cons.IH [OF rest] sp cl bf groups show ?case
    by (auto simp: nth_Cons split: nat.splits)
qed

lemma ParseSelectableTokens_nth:
  assumes p: "ParseSelectableTokens op_code op_token operands selectable_tokens w
                = Inr (op', groups)"
    and nb: "str_find op_code kUnconditionalBranchString = None"
            "str_find op_code kConditionalBranchString = None"
    and i: "i < length operands" and sp: "Split (operands ! i) '' '' = Some toks"
    and j: "j < length toks"
  shows "\<exists>c. classify_token False (toks ! j) = Inr c
           \<and> token_fields (groups ! (length selectable_tokens + i) ! j) = token_fields c"
proof -
  from p nb obtain gs where
    gs: "parse_operands False w operands (0, 0, w * real (length op_code)) = Inr gs"
    and groups: "groups = selectable_tokens @ gs"
    by (auto simp: ParseSelectableTokens_def Let_def bind_result_def split: sum.splits)
  from parse_operands_nth [OF gs] i sp obtain cls where
    cl: "classify_tokens False toks = Inr cls"
    and tf: "map token_fields (gs ! i) = map token_fields cls"
    by auto
  from classify_tokens_nth [OF cl] j have
    len: "length cls = length toks" and c: "classify_token False (toks ! j) = Inr (cls ! j)"
    by auto
  from tf len j have "token_fields (gs ! i ! j) = token_fields (cls ! j)"
    by (metis length_map nth_map)
  with c groups show ?thesis by (simp add: nth_append)
qed

lemma ParseSelectableTokens_single:
  assumes sp: "Split t '' '' = Some [t]"
    and c: "classify_token (is_branch_op_code op_code) t = Inr tok"
  shows "ParseSelectableTokens op_code op_token [t] [] w =
           Inr (parsed_op_code_token op_code op_token w,
                [[tok \<lparr> x_position_start := 0,
                        x_position_end := w * real (length (token_text tok)) \<rparr>]])"
  using c
  by (simp add: ParseSelectableTokens_def parsed_op_code_token_def Let_def sp bind_result_def
      is_branch_op_code_def)

lemma Split_scalar_word:
  assumes d: "digits ds" and s: "sign = [] \<or> sign = ''-''"
  shows "Split (sign @ CHR ''s'' # ds) '' '' = Some [sign @ CHR ''s'' # ds]"
proof (rule Split_word)
  have a: "\<forall>c\<in>set ds. isdigit c" using d by (simp add: digits_def list_all_iff)
  have "CHR '' '' \<notin> set ds" by (rule digits_notin [OF d]) (simp add: isdigit_def)
  with s show "CHR '' '' \<notin> set (sign @ CHR ''s'' # ds)" by auto
  from d have ne: "ds \<noteq> []" by (simp add: digits_def)
  then have "last ds \<in> set ds" by simp
  with a have "isdigit (last ds)" by blast
  then have l: "\<not> is_special_char (last ds)" by (simp add: isdigit_cases)
  have h: "\<not> is_special_char (hd (sign @ CHR ''s'' # ds))"
    using s by (auto simp: is_special_char_def)
  show "TrimStr (sign @ CHR ''s'' # ds) = sign @ CHR ''s'' # ds"
    by (rule TrimStr_id) (use h l ne in simp)
qed

subsection \<open>When \<^verbatim>\<open>ParseSelectableTokens\<close> returns\<close>

lemma throws_iff: "\<not> throws tok \<longleftrightarrow> (\<exists>c. classify_token False tok = Inr c)"
  by (simp add: throws_def split: sum.splits)

lemma classify_tokens_returns:
  "(\<exists>cls. classify_tokens False toks = Inr cls) \<longleftrightarrow> list_all (\<lambda>tok. \<not> throws tok) toks"
proof (induction toks)
  case Nil
  show ?case by simp
next
  case (Cons t toks)
  show ?case
  proof (cases "classify_token False t")
    case (Inl e)
    then show ?thesis by (simp add: bind_result_def throws_def)
  next
    case (Inr c)
    show ?thesis
    proof (cases "classify_tokens False toks")
      case (Inl e)
      with Cons Inr show ?thesis by (simp add: bind_result_def throws_def)
    next
      case r: (Inr cs)
      with Cons Inr show ?thesis by (simp add: bind_result_def throws_def)
    qed
  qed
qed

lemma Split_space: "\<exists>toks. Split operand '' '' = Some toks"
  by (rule Split_Some) simp

lemma parse_operands_returns:
  "(\<exists>groups. parse_operands False w operands st = Inr groups) \<longleftrightarrow> no_word_throws operands"
proof (induction operands arbitrary: st)
  case Nil
  show ?case by (simp add: no_word_throws_def)
next
  case (Cons operand operands)
  obtain toks where sp: "Split operand '' '' = Some toks" using Split_space by blast
  then have ow: "operand_words operand = toks" by (simp add: operand_words_def)
  show ?case
  proof (cases "classify_tokens False toks")
    case (Inl e)
    with classify_tokens_returns [of toks] have "\<not> list_all (\<lambda>tok. \<not> throws tok) toks"
      by simp
    with Inl show ?thesis by (simp add: sp bind_result_def no_word_throws_def ow)
  next
    case (Inr cls)
    with classify_tokens_returns [of toks] have a: "list_all (\<lambda>tok. \<not> throws tok) toks"
      by auto
    obtain ts sx ex tw where h: "set_hit_boxes w cls st = (ts, sx, ex, tw)"
      by (cases "set_hit_boxes w cls st") auto
    from Cons [of "(sx + tw + w * 2, ex + w * 2, tw)"]
    have ih: "(\<exists>groups. parse_operands False w operands (sx + tw + w * 2, ex + w * 2, tw)
                 = Inr groups) \<longleftrightarrow> no_word_throws operands" .
    show ?thesis
    proof (cases "parse_operands False w operands (sx + tw + w * 2, ex + w * 2, tw)")
      case (Inl e)
      with ih have "\<not> no_word_throws operands" by simp
      with Inl show ?thesis
        by (simp add: sp Inr h bind_result_def no_word_throws_def)
    next
      case r: (Inr groups)
      with ih have "no_word_throws operands" by auto
      with r a show ?thesis
        by (simp add: sp Inr h bind_result_def no_word_throws_def ow)
    qed
  qed
qed

lemma ParseSelectableTokens_returns:
  assumes nb: "\<not> is_branch_op_code op_code"
  shows "(\<exists>groups. ParseSelectableTokens op_code op_token operands selectable_tokens w
            = Inr (parsed_op_code_token op_code op_token w, groups))
         \<longleftrightarrow> no_word_throws operands"
    and "(\<exists>result. ParseSelectableTokens op_code op_token operands selectable_tokens w
            = Inr result) \<longleftrightarrow> no_word_throws operands"
proof -
  from nb have n: "str_find op_code kUnconditionalBranchString = None"
    "str_find op_code kConditionalBranchString = None"
    by (simp_all add: is_branch_op_code_def)
  let ?st = "(0, 0, w * real (length op_code))"
  show "(\<exists>groups. ParseSelectableTokens op_code op_token operands selectable_tokens w
            = Inr (parsed_op_code_token op_code op_token w, groups))
         \<longleftrightarrow> no_word_throws operands"
  proof (cases "parse_operands False w operands ?st")
    case (Inl e)
    with parse_operands_returns [of w operands ?st] have "\<not> no_word_throws operands" by simp
    with Inl n show ?thesis
      by (simp add: ParseSelectableTokens_def Let_def bind_result_def)
  next
    case (Inr gs)
    with parse_operands_returns [of w operands ?st] have "no_word_throws operands" by auto
    with Inr n show ?thesis
      by (simp add: ParseSelectableTokens_def parsed_op_code_token_def Let_def bind_result_def)
  qed
  show "(\<exists>result. ParseSelectableTokens op_code op_token operands selectable_tokens w
            = Inr result) \<longleftrightarrow> no_word_throws operands"
  proof (cases "parse_operands False w operands ?st")
    case (Inl e)
    with parse_operands_returns [of w operands ?st] have "\<not> no_word_throws operands" by simp
    with Inl n show ?thesis
      by (simp add: ParseSelectableTokens_def Let_def bind_result_def)
  next
    case (Inr gs)
    with parse_operands_returns [of w operands ?st] have "no_word_throws operands" by auto
    with Inr n show ?thesis
      by (simp add: ParseSelectableTokens_def Let_def bind_result_def)
  qed
qed

lemma digit_value_le: "isdigit c \<Longrightarrow> digit_value c \<le> 9"
  by (auto simp: isdigit_def digit_value_def)

lemma decimal_acc_less:
  "list_all isdigit ds \<Longrightarrow> 0 \<le> acc \<Longrightarrow>
     foldl (\<lambda>n c. 10 * n + digit_value c) acc ds < (acc + 1) * 10 ^ length ds"
proof (induction ds arbitrary: acc)
  case Nil
  then show ?case by simp
next
  case (Cons c ds)
  from Cons.prems have c: "0 \<le> digit_value c" "digit_value c \<le> 9"
    by (simp_all add: isdigit_cases digit_value_le)
  with Cons.prems have "0 \<le> 10 * acc + digit_value c" by simp
  with Cons.IH [of "10 * acc + digit_value c"] Cons.prems
  have "foldl (\<lambda>n c. 10 * n + digit_value c) (10 * acc + digit_value c) ds
          < (10 * acc + digit_value c + 1) * 10 ^ length ds" by simp
  also have "\<dots> \<le> (10 * acc + 10) * 10 ^ length ds"
    using c by (intro mult_right_mono) simp_all
  also have "\<dots> = (acc + 1) * 10 ^ length (c # ds)" by (simp add: algebra_simps)
  finally show ?case by simp
qed

lemma decimal_short:
  assumes "list_all isdigit ds" "length ds \<le> 9"
  shows "decimal ds \<le> 2147483647"
proof -
  from decimal_acc_less [OF assms(1), of 0] have "decimal ds < 10 ^ length ds"
    by (simp add: decimal_def)
  also have "(10::int) ^ length ds \<le> 10 ^ 9"
    using assms(2) by (intro power_increasing) simp_all
  finally show ?thesis by simp
qed

lemma run_le_longest: "length (takeWhile isdigit (drop n t)) \<le> longest_digit_run t"
proof (induction t arbitrary: n)
  case Nil
  show ?case by simp
next
  case (Cons c cs)
  show ?case
  proof (cases n)
    case 0
    then show ?thesis by simp
  next
    case (Suc k)
    with Cons [of k] show ?thesis by simp
  qed
qed

lemma digits_le_longest:
  assumes d: "digits ds" and t: "t = pre @ ds @ post"
  shows "length ds \<le> longest_digit_run t"
proof -
  from d have a: "\<forall>c\<in>set ds. isdigit c" by (simp add: digits_def list_all_iff)
  have "drop (length pre) t = ds @ post" by (simp add: t)
  moreover have "takeWhile isdigit (ds @ post) = ds @ takeWhile isdigit post"
    using a by (simp add: takeWhile_append2)
  ultimately have "length ds \<le> length (takeWhile isdigit (drop (length pre) t))" by simp
  also have "\<dots> \<le> longest_digit_run t" by (rule run_le_longest)
  finally show ?thesis .
qed

lemma stoi_leading_digit:
  assumes ne: "xs \<noteq> []" and h: "isdigit (hd xs)" and l: "length (takeWhile isdigit xs) \<le> 9"
  shows "\<exists>v. stoi xs = Inr v"
proof -
  let ?ds = "takeWhile isdigit xs"
  from ne obtain c cs where xs: "xs = c # cs" by (cases xs) auto
  with h have c: "isdigit c" by simp
  have dw: "dropWhile is_special_char xs = xs"
    using xs c by (simp add: isdigit_cases)
  have hd: "hd xs \<noteq> CHR ''-''" "hd xs \<noteq> CHR ''+''"
    using xs c by (auto dest: isdigit_cases)
  have dne: "?ds \<noteq> []" using xs c by simp
  have all: "list_all isdigit ?ds"
    by (simp add: list_all_iff) (meson set_takeWhileD)
  have nn: "0 \<le> decimal ?ds" using all by (rule decimal_nonneg)
  have le: "decimal ?ds \<le> 2147483647" using all l by (rule decimal_short)
  show ?thesis
    using nn le dne by (simp add: stoi_def Let_def dw hd ne)
qed

lemma after_register_character_drop:
  "\<exists>n. after_register_character t letter = drop n t"
proof (cases "str_find t letter")
  case None
  then have "after_register_character t letter = drop 0 t"
    by (simp add: after_register_character_def)
  then show ?thesis by blast
next
  case (Some p)
  then show ?thesis by (auto simp: after_register_character_def)
qed

lemma short_digit_runs:
  assumes l: "longest_digit_run t \<le> 9"
  shows "\<not> throws t"
proof -
  let ?ss = "is_single_scalar t" and ?sv = "is_single_vector t"
  let ?rs = "exact_match kScalarRegisterRangeExpression t"
  let ?rv = "exact_match kVectorRegisterRangeExpression t"
  let ?k = "exact_match kConstantExpression t"
  have "\<exists>tok. token_of_flags t ?ss ?sv ?rs ?rv ?k = Inr tok"
  proof (cases "?ss \<or> ?sv")
    case True
    let ?r = "after_register_character t (if ?ss then ''s'' else ''v'')"
    from after_register_character_drop obtain n where n: "?r = drop n t" by blast
    show ?thesis
    proof (cases "?r \<noteq> [] \<and> isdigit (hd ?r)")
      case d: True
      have "length (takeWhile isdigit ?r) \<le> 9"
        unfolding n using run_le_longest [of n t] l by simp
      with stoi_leading_digit [of ?r] d obtain v where v: "stoi ?r = Inr v" by blast
      show ?thesis
      proof (cases ?ss)
        case s: True
        with v d show ?thesis
          by (simp add: token_of_flags_def Let_def bind_result_def)
      next
        case s: False
        with True have "?sv" by simp
        with s v d show ?thesis
          by (simp add: token_of_flags_def Let_def bind_result_def)
      qed
    next
      case d: False
      show ?thesis
      proof (cases ?ss)
        case s: True
        with d show ?thesis
          by (auto simp: token_of_flags_def Let_def bind_result_def)
      next
        case s: False
        with True have "?sv" by simp
        with s d show ?thesis
          by (auto simp: token_of_flags_def Let_def bind_result_def)
      qed
    qed
  next
    case False
    show ?thesis
    proof (cases "?rs \<or> ?rv")
      case r: True
      from range_text [OF r] obtain c ds1 ds2 where d1: "digits ds1" and d2: "digits ds2"
        and t: "t = c # CHR ''['' # ds1 @ CHR '':'' # ds2 @ '']''"
        by blast
      have dr: "drop 2 (butlast t) = ds1 @ CHR '':'' # ds2"
        unfolding t by (simp add: butlast_append)
      have sp: "Split (drop 2 (butlast t)) '':'' = Some [ds1, ds2]"
        unfolding dr by (rule Split_range [OF d1 d2])
      have t1: "t = [c, CHR ''[''] @ ds1 @ (CHR '':'' # ds2 @ '']'')" by (simp add: t)
      have t2: "t = (c # CHR ''['' # ds1 @ '':'') @ ds2 @ '']''" by (simp add: t)
      from digits_le_longest [OF d1 t1] l have l1: "length ds1 \<le> 9" by simp
      from digits_le_longest [OF d2 t2] l have l2: "length ds2 \<le> 9" by simp
      from d1 have a1: "list_all isdigit ds1" by (simp add: digits_def)
      from d2 have a2: "list_all isdigit ds2" by (simp add: digits_def)
      have s1: "stoi ds1 = Inr (decimal ds1)"
        using decimal_short [OF a1 l1] by (simp add: stoi_digits [OF d1])
      have s2: "stoi ds2 = Inr (decimal ds2)"
        using decimal_short [OF a2 l2] by (simp add: stoi_digits [OF d2])
      from False r show ?thesis
        by (auto simp: token_of_flags_def Let_def bind_result_def sp s1 s2)
    next
      case r: False
      with False show ?thesis
        by (simp add: token_of_flags_def Let_def bind_result_def)
    qed
  qed
  then show ?thesis by (simp add: throws_iff classify_token_flags)
qed

subsection \<open>Single scalar registers\<close>

lemma not_branch_s_mov: "\<not> is_branch_op_code ''s_mov_b32''"
  by (simp add: is_branch_op_code_def kUnconditionalBranchString_def kConditionalBranchString_def)

text \<open>
  C4, as amended. Take an instruction that is no branch and a word \<open>-?s[0-9]+\<close> whose
  digits denote a value that fits a 32-bit \<^verbatim>\<open>int\<close> (at most 2147483647).

  \<^item> As the only operand, the word gets a selectable token of type \<^verbatim>\<open>kScalarRegisterType\<close>,
    not a constant, with \<^verbatim>\<open>start_register_index\<close> the value of the digits and
    \<^verbatim>\<open>end_register_index\<close> \<open>-1\<close>.
  \<^item> At any place of any list of operands of which no word makes the classifier throw,
    \<^verbatim>\<open>ParseSelectableTokens\<close> returns and the word gets that token.
  \<^item> \<^verbatim>\<open>ParseSelectableTokens\<close> returns exactly when no word of the operands makes the
    classifier throw, and a word with no run of more than nine digits never does.
  \<^item> The register patterns are tested before the constant pattern: once the flag
    \<^verbatim>\<open>is_scalar_register\<close> is set, the token has the type \<^verbatim>\<open>kScalarRegisterType\<close>
    whatever the other four flags are.
\<close>

theorem scalar_register_token:
  assumes nb: "\<not> is_branch_op_code op_code"
    and d: "digits ds" and r: "decimal ds \<le> 2147483647"
    and s: "sign = [] \<or> sign = ''-''"
  shows "(\<exists>tok. ParseSelectableTokens op_code op_token [sign @ CHR ''s'' # ds] [] w
                  = Inr (parsed_op_code_token op_code op_token w, [[tok]])
             \<and> token_fields tok
                 = (sign @ CHR ''s'' # ds, kScalarRegisterType, decimal ds, - 1, True))
       \<and> (\<forall>operands selectable_tokens i toks j.
            no_word_throws operands
            \<and> i < length operands \<and> Split (operands ! i) '' '' = Some toks
            \<and> j < length toks \<and> toks ! j = sign @ CHR ''s'' # ds
            \<longrightarrow> (\<exists>groups.
                   ParseSelectableTokens op_code op_token operands selectable_tokens w
                     = Inr (parsed_op_code_token op_code op_token w, groups)
                   \<and> token_fields (groups ! (length selectable_tokens + i) ! j)
                       = (sign @ CHR ''s'' # ds, kScalarRegisterType, decimal ds, - 1, True)))
       \<and> (\<forall>operands selectable_tokens.
            (\<exists>result. ParseSelectableTokens op_code op_token operands selectable_tokens w
                        = Inr result)
            \<longleftrightarrow> no_word_throws operands)
       \<and> (\<forall>tok. longest_digit_run tok \<le> 9 \<longrightarrow> \<not> throws tok)
       \<and> (\<forall>is_vector_register is_scalar_register_range is_vector_register_range is_constant.
            \<exists>tok. token_of_flags (sign @ CHR ''s'' # ds) True is_vector_register
                     is_scalar_register_range is_vector_register_range is_constant = Inr tok
                 \<and> type tok = kScalarRegisterType)"
proof -
  let ?t = "sign @ CHR ''s'' # ds"
  let ?tok = "Clear \<lparr> token_text := ?t, type := kScalarRegisterType,
                       start_register_index := decimal ds, is_selectable := True \<rparr>"
  have c: "classify_token False ?t = Inr ?tok"
    using d r s by (rule classify_scalar_register)
  have f: "token_fields ?tok = (?t, kScalarRegisterType, decimal ds, - 1, True)"
    by (simp add: token_fields_def Clear_def)
  have one: "ParseSelectableTokens op_code op_token [?t] [] w
               = Inr (parsed_op_code_token op_code op_token w,
                      [[?tok \<lparr> x_position_start := 0,
                               x_position_end := w * real (length (token_text ?tok)) \<rparr>]])"
    using c nb by (intro ParseSelectableTokens_single Split_scalar_word [OF d s]) simp
  have first: "\<exists>tok. ParseSelectableTokens op_code op_token [?t] [] w
                  = Inr (parsed_op_code_token op_code op_token w, [[tok]])
             \<and> token_fields tok = (?t, kScalarRegisterType, decimal ds, - 1, True)"
    using one f by (intro exI conjI) (assumption, simp)
  have second: "\<exists>groups.
      ParseSelectableTokens op_code op_token operands selectable_tokens w
        = Inr (parsed_op_code_token op_code op_token w, groups)
      \<and> token_fields (groups ! (length selectable_tokens + i) ! j)
          = (?t, kScalarRegisterType, decimal ds, - 1, True)"
    if "no_word_throws operands"
      "i < length operands" "Split (operands ! i) '' '' = Some toks"
      "j < length toks" "toks ! j = ?t"
    for operands selectable_tokens i toks j
  proof -
    from nb have n: "str_find op_code kUnconditionalBranchString = None"
      "str_find op_code kConditionalBranchString = None"
      by (simp_all add: is_branch_op_code_def)
    from ParseSelectableTokens_returns(1) [OF nb] that(1) obtain groups where
      p: "ParseSelectableTokens op_code op_token operands selectable_tokens w
            = Inr (parsed_op_code_token op_code op_token w, groups)" by blast
    from ParseSelectableTokens_nth [OF p n that(2) that(3) that(4)] that(5) c f
    have "token_fields (groups ! (length selectable_tokens + i) ! j)
            = (?t, kScalarRegisterType, decimal ds, - 1, True)" by auto
    with p show ?thesis by blast
  qed
  have third: "(\<exists>result. ParseSelectableTokens op_code op_token operands selectable_tokens w
                            = Inr result) \<longleftrightarrow> no_word_throws operands"
    for operands selectable_tokens
    by (rule ParseSelectableTokens_returns(2) [OF nb])
  have fourth: "\<forall>tok. longest_digit_run tok \<le> 9 \<longrightarrow> \<not> throws tok"
    by (simp add: short_digit_runs)
  have st: "stoi ds = Inr (decimal ds)" using d r by (simp add: stoi_digits)
  have fifth: "\<exists>tok. token_of_flags ?t True v rs rv k = Inr tok \<and> type tok = kScalarRegisterType"
    for v rs rv k
    using digits_hd [OF d]
    by (simp add: token_of_flags_def Let_def after_s [OF s] st bind_result_def)
  from first second third fourth fifth show ?thesis by blast
qed

theorem scalar_register_token_witness:
  "(\<exists>tok. ParseSelectableTokens ''v_fma_f32'' Clear [''-s5''] [] 8
             = Inr (parsed_op_code_token ''v_fma_f32'' Clear 8, [[tok]])
          \<and> token_fields tok = (''-s5'', kScalarRegisterType, 5, - 1, True))
   \<and> (\<exists>groups. ParseSelectableTokens ''v_fma_f32'' Clear
                   [''v1'', ''-s5'', ''v2'', ''0x3f800000''] [] 8
                 = Inr (parsed_op_code_token ''v_fma_f32'' Clear 8, groups)
          \<and> token_fields (groups ! 1 ! 0) = (''-s5'', kScalarRegisterType, 5, - 1, True))"
proof -
  have nb: "\<not> is_branch_op_code ''v_fma_f32''"
    by (simp add: is_branch_op_code_def kUnconditionalBranchString_def
        kConditionalBranchString_def)
  have d: "digits ''5''" by (simp add: digits_def isdigit_def)
  have dv: "decimal ''5'' = 5" by (simp add: decimal_def digit_value_def)
  have r: "decimal ''5'' \<le> 2147483647" by (simp add: dv)
  have s: "''-'' = [] \<or> ''-'' = ''-''" by simp
  have nt: "no_word_throws [''v1'', ''-s5'', ''v2'', ''0x3f800000'']" by code_simp
  have sp: "Split ([''v1'', ''-s5'', ''v2'', ''0x3f800000''] ! 1) '' '' = Some [''-s5'']"
    by code_simp
  note t = scalar_register_token [OF nb d r s, of Clear 8]
  from t [THEN conjunct1] have a: "\<exists>tok. ParseSelectableTokens ''v_fma_f32'' Clear [''-s5''] [] 8
             = Inr (parsed_op_code_token ''v_fma_f32'' Clear 8, [[tok]])
          \<and> token_fields tok = (''-s5'', kScalarRegisterType, 5, - 1, True)"
    by (simp add: dv)
  from t [THEN conjunct2, THEN conjunct1]
  have "\<forall>operands selectable_tokens i toks j.
            no_word_throws operands
            \<and> i < length operands \<and> Split (operands ! i) '' '' = Some toks
            \<and> j < length toks \<and> toks ! j = ''-s5''
            \<longrightarrow> (\<exists>groups.
                   ParseSelectableTokens ''v_fma_f32'' Clear operands selectable_tokens 8
                     = Inr (parsed_op_code_token ''v_fma_f32'' Clear 8, groups)
                   \<and> token_fields (groups ! (length selectable_tokens + i) ! j)
                       = (''-s5'', kScalarRegisterType, 5, - 1, True))"
    by (simp add: dv)
  from this [rule_format, of "[''v1'', ''-s5'', ''v2'', ''0x3f800000'']" 1 "[''-s5'']" 0 "[]"]
    nt sp
  have b: "\<exists>groups. ParseSelectableTokens ''v_fma_f32'' Clear
                   [''v1'', ''-s5'', ''v2'', ''0x3f800000''] [] 8
                 = Inr (parsed_op_code_token ''v_fma_f32'' Clear 8, groups)
          \<and> token_fields (groups ! 1 ! 0) = (''-s5'', kScalarRegisterType, 5, - 1, True)"
    by simp
  from a b show ?thesis by blast
qed

text \<open>The word \<^verbatim>\<open>s2147483648\<close> matches \<open>-?s[0-9]+\<close>, and \<^verbatim>\<open>std::stoi\<close> throws
  \<^verbatim>\<open>std::out_of_range\<close>: no token is produced.\<close>

theorem scalar_register_token_counterexample:
  "ParseSelectableTokens ''s_mov_b32'' Clear [''s2147483648''] [] 8 = Inl std_out_of_range"
  by code_simp

subsection \<open>Scalar register ranges\<close>

lemma Split_range_word:
  assumes d1: "digits ds1" and d2: "digits ds2"
  shows "Split (CHR ''s'' # CHR ''['' # ds1 @ CHR '':'' # ds2 @ '']'') '' ''
           = Some [CHR ''s'' # CHR ''['' # ds1 @ CHR '':'' # ds2 @ '']'']"
proof (rule Split_word)
  have ns: "\<not> isdigit CHR '' ''" by (simp add: isdigit_def)
  from digits_notin [OF d1 ns] digits_notin [OF d2 ns]
  show "CHR '' '' \<notin> set (CHR ''s'' # CHR ''['' # ds1 @ CHR '':'' # ds2 @ '']'')" by simp
  show "TrimStr (CHR ''s'' # CHR ''['' # ds1 @ CHR '':'' # ds2 @ '']'')
          = CHR ''s'' # CHR ''['' # ds1 @ CHR '':'' # ds2 @ '']''"
    by (rule TrimStr_id) (simp add: is_special_char_def)
qed

text \<open>
  C5, as amended. Take an instruction that is no branch and a word \<open>s[N:M]\<close> whose two
  numbers fit a 32-bit \<^verbatim>\<open>int\<close> (at most 2147483647).

  \<^item> As the only operand, the word gets a selectable token of type \<^verbatim>\<open>kScalarRegisterType\<close>
    whose \<^verbatim>\<open>start_register_index\<close> is \<open>N\<close> and whose \<^verbatim>\<open>end_register_index\<close> is \<open>M\<close>,
    whatever their order: nothing is clamped or swapped.
  \<^item> At any place of any list of operands of which no word makes the classifier throw,
    \<^verbatim>\<open>ParseSelectableTokens\<close> returns and the word gets that token.
  \<^item> \<^verbatim>\<open>ParseSelectableTokens\<close> returns exactly when no word of the operands makes the
    classifier throw, and a word with no run of more than nine digits never does.
\<close>

theorem scalar_register_range_token:
  assumes nb: "\<not> is_branch_op_code op_code"
    and d1: "digits ds1" and d2: "digits ds2"
    and r1: "decimal ds1 \<le> 2147483647" and r2: "decimal ds2 \<le> 2147483647"
    and t: "t = CHR ''s'' # CHR ''['' # ds1 @ CHR '':'' # ds2 @ '']''"
  shows "(\<exists>tok. ParseSelectableTokens op_code op_token [t] [] w
                  = Inr (parsed_op_code_token op_code op_token w, [[tok]])
             \<and> token_fields tok = (t, kScalarRegisterType, decimal ds1, decimal ds2, True))
       \<and> (\<forall>operands selectable_tokens i toks j.
            no_word_throws operands
            \<and> i < length operands \<and> Split (operands ! i) '' '' = Some toks
            \<and> j < length toks \<and> toks ! j = t
            \<longrightarrow> (\<exists>groups.
                   ParseSelectableTokens op_code op_token operands selectable_tokens w
                     = Inr (parsed_op_code_token op_code op_token w, groups)
                   \<and> token_fields (groups ! (length selectable_tokens + i) ! j)
                       = (t, kScalarRegisterType, decimal ds1, decimal ds2, True)))
       \<and> (\<forall>operands selectable_tokens.
            (\<exists>result. ParseSelectableTokens op_code op_token operands selectable_tokens w
                        = Inr result)
            \<longleftrightarrow> no_word_throws operands)
       \<and> (\<forall>tok. longest_digit_run tok \<le> 9 \<longrightarrow> \<not> throws tok)"
proof -
  let ?tok = "Clear \<lparr> token_text := t, type := kScalarRegisterType,
                       start_register_index := decimal ds1,
                       end_register_index := decimal ds2, is_selectable := True \<rparr>"
  have c: "classify_token False t = Inr ?tok"
    unfolding t using d1 d2 r1 r2 by (rule classify_scalar_register_range)
  have f: "token_fields ?tok = (t, kScalarRegisterType, decimal ds1, decimal ds2, True)"
    by (simp add: token_fields_def Clear_def)
  have sp: "Split t '' '' = Some [t]"
    unfolding t using d1 d2 by (rule Split_range_word)
  have one: "ParseSelectableTokens op_code op_token [t] [] w
               = Inr (parsed_op_code_token op_code op_token w,
                      [[?tok \<lparr> x_position_start := 0,
                               x_position_end := w * real (length (token_text ?tok)) \<rparr>]])"
    using c nb by (intro ParseSelectableTokens_single sp) simp
  have first: "\<exists>tok. ParseSelectableTokens op_code op_token [t] [] w
                  = Inr (parsed_op_code_token op_code op_token w, [[tok]])
             \<and> token_fields tok = (t, kScalarRegisterType, decimal ds1, decimal ds2, True)"
    using one f by (intro exI conjI) (assumption, simp)
  have second: "\<exists>groups.
      ParseSelectableTokens op_code op_token operands selectable_tokens w
        = Inr (parsed_op_code_token op_code op_token w, groups)
      \<and> token_fields (groups ! (length selectable_tokens + i) ! j)
          = (t, kScalarRegisterType, decimal ds1, decimal ds2, True)"
    if "no_word_throws operands"
      "i < length operands" "Split (operands ! i) '' '' = Some toks"
      "j < length toks" "toks ! j = t"
    for operands selectable_tokens i toks j
  proof -
    from nb have n: "str_find op_code kUnconditionalBranchString = None"
      "str_find op_code kConditionalBranchString = None"
      by (simp_all add: is_branch_op_code_def)
    from ParseSelectableTokens_returns(1) [OF nb] that(1) obtain groups where
      p: "ParseSelectableTokens op_code op_token operands selectable_tokens w
            = Inr (parsed_op_code_token op_code op_token w, groups)" by blast
    from ParseSelectableTokens_nth [OF p n that(2) that(3) that(4)] that(5) c f
    have "token_fields (groups ! (length selectable_tokens + i) ! j)
            = (t, kScalarRegisterType, decimal ds1, decimal ds2, True)" by auto
    with p show ?thesis by blast
  qed
  have third: "(\<exists>result. ParseSelectableTokens op_code op_token operands selectable_tokens w
                            = Inr result) \<longleftrightarrow> no_word_throws operands"
    for operands selectable_tokens
    by (rule ParseSelectableTokens_returns(2) [OF nb])
  have fourth: "\<forall>tok. longest_digit_run tok \<le> 9 \<longrightarrow> \<not> throws tok"
    by (simp add: short_digit_runs)
  from first second third fourth show ?thesis by blast
qed

theorem scalar_register_range_token_witness:
  "(\<exists>tok. ParseSelectableTokens ''s_load_dwordx4'' Clear [''s[7:4]''] [] 8
             = Inr (parsed_op_code_token ''s_load_dwordx4'' Clear 8, [[tok]])
          \<and> token_fields tok = (''s[7:4]'', kScalarRegisterType, 7, 4, True))
   \<and> (\<exists>groups. ParseSelectableTokens ''s_load_dwordx4'' Clear
                   [''s[0:3]'', ''s[7:4]'', ''0x10''] [] 8
                 = Inr (parsed_op_code_token ''s_load_dwordx4'' Clear 8, groups)
          \<and> token_fields (groups ! 1 ! 0) = (''s[7:4]'', kScalarRegisterType, 7, 4, True))"
proof -
  have nb: "\<not> is_branch_op_code ''s_load_dwordx4''"
    by (simp add: is_branch_op_code_def kUnconditionalBranchString_def
        kConditionalBranchString_def)
  have d: "digits ''7''" "digits ''4''" by (simp_all add: digits_def isdigit_def)
  have dv: "decimal ''7'' = 7" "decimal ''4'' = 4"
    by (simp_all add: decimal_def digit_value_def)
  have r: "decimal ''7'' \<le> 2147483647" "decimal ''4'' \<le> 2147483647" by (simp_all add: dv)
  have t: "''s[7:4]'' = CHR ''s'' # CHR ''['' # ''7'' @ CHR '':'' # ''4'' @ '']''" by simp
  have nt: "no_word_throws [''s[0:3]'', ''s[7:4]'', ''0x10'']" by code_simp
  have sp: "Split ([''s[0:3]'', ''s[7:4]'', ''0x10''] ! 1) '' '' = Some [''s[7:4]'']"
    by code_simp
  note th = scalar_register_range_token [OF nb d r t, of Clear 8]
  from th [THEN conjunct1] have a: "\<exists>tok. ParseSelectableTokens ''s_load_dwordx4'' Clear [''s[7:4]''] [] 8
             = Inr (parsed_op_code_token ''s_load_dwordx4'' Clear 8, [[tok]])
          \<and> token_fields tok = (''s[7:4]'', kScalarRegisterType, 7, 4, True)"
    by (simp add: dv)
  from th [THEN conjunct2, THEN conjunct1]
  have "\<forall>operands selectable_tokens i toks j.
            no_word_throws operands
            \<and> i < length operands \<and> Split (operands ! i) '' '' = Some toks
            \<and> j < length toks \<and> toks ! j = ''s[7:4]''
            \<longrightarrow> (\<exists>groups.
                   ParseSelectableTokens ''s_load_dwordx4'' Clear operands selectable_tokens 8
                     = Inr (parsed_op_code_token ''s_load_dwordx4'' Clear 8, groups)
                   \<and> token_fields (groups ! (length selectable_tokens + i) ! j)
                       = (''s[7:4]'', kScalarRegisterType, 7, 4, True))"
    by (simp add: dv)
  from this [rule_format, of "[''s[0:3]'', ''s[7:4]'', ''0x10'']" 1 "[''s[7:4]'']" 0 "[]"]
    nt sp
  have b: "\<exists>groups. ParseSelectableTokens ''s_load_dwordx4'' Clear
                   [''s[0:3]'', ''s[7:4]'', ''0x10''] [] 8
                 = Inr (parsed_op_code_token ''s_load_dwordx4'' Clear 8, groups)
          \<and> token_fields (groups ! 1 ! 0) = (''s[7:4]'', kScalarRegisterType, 7, 4, True)"
    by simp
  from a b show ?thesis by blast
qed

text \<open>The word \<^verbatim>\<open>s[0:2147483648]\<close> matches \<open>s\[[0-9]+:[0-9]+\]\<close>, and \<^verbatim>\<open>std::stoi\<close> throws
  \<^verbatim>\<open>std::out_of_range\<close> on its second number.\<close>

theorem scalar_register_range_token_counterexample:
  "ParseSelectableTokens ''s_load_dwordx4'' Clear [''s[0:2147483648]''] [] 8
     = Inl std_out_of_range"
  by code_simp

subsection \<open>The end of a register range\<close>

text \<open>
  C6, as amended. In every operand token that \<^verbatim>\<open>ParseSelectableTokens\<close> produces,
  \<^verbatim>\<open>end_register_index\<close> is present (not \<open>-1\<close>) only when the word is a register range
  \<open>s[N:M]\<close> or \<open>v[N:M]\<close>; then \<^verbatim>\<open>start_register_index\<close> is \<open>N\<close> and
  \<^verbatim>\<open>end_register_index\<close> is \<open>M\<close> as written, so that the end is at least the start exactly
  when \<open>N \<le> M\<close> in the text.
\<close>

theorem end_register_index_range:
  assumes p: "ParseSelectableTokens op_code op_token operands [] w = Inr (op', groups)"
    and m: "tok \<in> set (concat groups)"
    and e: "end_register_index tok \<noteq> - 1"
  shows "\<exists>c ds1 ds2. (c = CHR ''s'' \<or> c = CHR ''v'') \<and> digits ds1 \<and> digits ds2
           \<and> token_text tok = c # CHR ''['' # ds1 @ CHR '':'' # ds2 @ '']''
           \<and> start_register_index tok = decimal ds1
           \<and> end_register_index tok = decimal ds2
           \<and> (start_register_index tok \<le> end_register_index tok
                \<longleftrightarrow> decimal ds1 \<le> decimal ds2)"
proof -
  from p obtain gs where
    gs: "parse_operands (is_branch_op_code op_code) w operands
           (0, 0, w * real (length op_code)) = Inr gs"
    and groups: "groups = gs"
    by (auto simp: ParseSelectableTokens_def Let_def bind_result_def is_branch_op_code_def
        split: sum.splits)
  from m groups obtain g where g: "g \<in> set gs" and tg: "tok \<in> set g"
    by auto
  from g obtain i where i: "i < length gs" and gi: "gs ! i = g"
    by (metis in_set_conv_nth)
  from tg gi have ti: "tok \<in> set (gs ! i)" by simp
  from parse_operands_nth [OF gs] i obtain toks cls where
    cl: "classify_tokens (is_branch_op_code op_code) toks = Inr cls"
    and tf: "map token_fields (gs ! i) = map token_fields cls"
    by auto
  from ti obtain j where j: "j < length (gs ! i)" and tj: "gs ! i ! j = tok"
    by (metis in_set_conv_nth)
  from tf j have jl: "j < length cls" by (metis length_map)
  from tf j tj have ff: "token_fields tok = token_fields (cls ! j)"
    by (metis length_map nth_map)
  from classify_tokens_nth [OF cl] jl have
    c: "classify_token (is_branch_op_code op_code) (toks ! j) = Inr (cls ! j)"
    by auto
  from ff e have e': "end_register_index (cls ! j) \<noteq> - 1"
    by (simp add: token_fields_def)
  from classify_token_end [OF c e'] obtain c ds1 ds2 where
    "c = CHR ''s'' \<or> c = CHR ''v''" "digits ds1" "digits ds2"
    "token_text (cls ! j) = c # CHR ''['' # ds1 @ CHR '':'' # ds2 @ '']''"
    "start_register_index (cls ! j) = decimal ds1"
    "end_register_index (cls ! j) = decimal ds2"
    by blast
  with ff have "c = CHR ''s'' \<or> c = CHR ''v''" "digits ds1" "digits ds2"
    "token_text tok = c # CHR ''['' # ds1 @ CHR '':'' # ds2 @ '']''"
    "start_register_index tok = decimal ds1"
    "end_register_index tok = decimal ds2"
    "start_register_index tok \<le> end_register_index tok \<longleftrightarrow> decimal ds1 \<le> decimal ds2"
    by (simp_all add: token_fields_def)
  then show ?thesis by (intro exI conjI) assumption+
qed

theorem end_register_index_range_witness:
  "\<exists>c ds1 ds2. (c = CHR ''s'' \<or> c = CHR ''v'') \<and> digits ds1 \<and> digits ds2
      \<and> token_text vector_range_token = c # CHR ''['' # ds1 @ CHR '':'' # ds2 @ '']''
      \<and> start_register_index vector_range_token = decimal ds1
      \<and> end_register_index vector_range_token = decimal ds2
      \<and> (start_register_index vector_range_token \<le> end_register_index vector_range_token
           \<longleftrightarrow> decimal ds1 \<le> decimal ds2)"
proof -
  have p: "ParseSelectableTokens ''v_mov_b32'' Clear [''v[4:7]''] [] 8
             = Inr (parsed_op_code_token ''v_mov_b32'' Clear 8, [[vector_range_token]])"
    by code_simp
  have m: "vector_range_token \<in> set (concat [[vector_range_token]])" by simp
  have e: "end_register_index vector_range_token \<noteq> - 1"
    by (simp add: vector_range_token_def)
  show ?thesis by (rule end_register_index_range [OF p m e])
qed

text \<open>The word \<^verbatim>\<open>s[7:4]\<close> gives a token with start 7 and end 4.\<close>

theorem end_register_index_range_counterexample:
  "ParseSelectableTokens ''s_load_dwordx4'' Clear [''s[7:4]''] [] 8
     = Inr (parsed_op_code_token ''s_load_dwordx4'' Clear 8,
            [[\<lparr> token_text = ''s[7:4]'', type = kScalarRegisterType,
                 start_register_index = 7, end_register_index = 4,
                 x_position_start = 0, x_position_end = 48, is_selectable = True \<rparr>]])
   \<and> end_register_index \<lparr> token_text = ''s[7:4]'', type = kScalarRegisterType,
                 start_register_index = 7, end_register_index = 4,
                 x_position_start = 0, x_position_end = 48, is_selectable = True \<rparr> \<noteq> - 1
   \<and> \<not> start_register_index \<lparr> token_text = ''s[7:4]'', type = kScalarRegisterType,
                 start_register_index = 7, end_register_index = 4,
                 x_position_start = 0, x_position_end = 48, is_selectable = True \<rparr>
          \<le> end_register_index \<lparr> token_text = ''s[7:4]'', type = kScalarRegisterType,
                 start_register_index = 7, end_register_index = 4,
                 x_position_start = 0, x_position_end = 48, is_selectable = True \<rparr>"
proof -
  have "ParseSelectableTokens ''s_load_dwordx4'' Clear [''s[7:4]''] [] 8
     = Inr (parsed_op_code_token ''s_load_dwordx4'' Clear 8,
            [[\<lparr> token_text = ''s[7:4]'', type = kScalarRegisterType,
                 start_register_index = 7, end_register_index = 4,
                 x_position_start = 0, x_position_end = 48, is_selectable = True \<rparr>]])"
    by code_simp
  then show ?thesis by simp
qed

section \<open>The line index\<close>

subsection \<open>Notions used in the statements\<close>

text \<open>The number of lines of a document: its blocks and their child rows.\<close>

definition total_lines :: "Block list \<Rightarrow> nat" where
  "total_lines bs = length bs + sum_list (map (\<lambda>b. length (instruction_lines b)) bs)"

text \<open>The model indices of one block: its header, then its child rows.\<close>

definition block_indices :: "Block list \<Rightarrow> nat \<Rightarrow> QModelIndex list" where
  "block_indices bs b =
     createIndex (int b) 0 None
       # map (\<lambda>r. createIndex (int r) 0 (Some b)) [0..<length (instruction_lines (bs ! b))]"

text \<open>The model indices of the whole document, in document order.\<close>

definition document_indices :: "Block list \<Rightarrow> QModelIndex list" where
  "document_indices bs = concat (map (block_indices bs) [0..<length bs])"

text \<open>The entries that \<^verbatim>\<open>CacheSizeHints\<close> appends for one block.\<close>

definition block_entries :: "nat \<Rightarrow> Block \<Rightarrow> (32 word \<times> 32 word) list" where
  "block_entries k b =
     (- 1, word_of_nat k)
       # map (\<lambda>j. (word_of_nat k, word_of_nat j)) [0..<length (instruction_lines b)]"

text \<open>The two calls of \<^verbatim>\<open>index\<close> that \<^verbatim>\<open>GetLineNumberModelIndex\<close> makes on an entry.\<close>

definition resolve_pair :: "IsaItemModel \<Rightarrow> 32 word \<times> 32 word \<Rightarrow> error + QModelIndex" where
  "resolve_pair m row_pair =
     bind_result (index m (uint32_to_int (fst row_pair)) 0 QModelIndex_invalid)
       (\<lambda>parent_index. index m (uint32_to_int (snd row_pair)) 0 parent_index)"

text \<open>The label token that the constructor \<^verbatim>\<open>InstructionBlock\<close> builds, at character width 0.\<close>

definition label_token :: "string \<Rightarrow> Token" where
  "label_token block_label =
     Clear \<lparr> token_text := block_label, type := kLabelType, x_position_start := 0,
             x_position_end := 0 \<rparr>"

text \<open>The instruction \<^verbatim>\<open>s_branch label0\<close>, as \<^verbatim>\<open>ParseSelectableTokens\<close> leaves its tokens.\<close>

definition branch_label0_row :: Row where
  "branch_label0_row =
     InstructionRow 2 (Clear \<lparr> token_text := ''s_branch'', is_selectable := True \<rparr>)
       [[Clear \<lparr> token_text := ''label0'', type := kBranchLabelType \<rparr>]]
       ''000000000000'' ''BFA0FFFF'' True"

text \<open>A document of two code blocks: \<^verbatim>\<open>label0\<close>, and \<^verbatim>\<open>label1\<close> with the one instruction
  \<^verbatim>\<open>s_branch label0\<close>.\<close>

definition two_block_model :: IsaItemModel where
  "two_block_model =
     IsaItemModel_init
       \<lparr> blocks := [InstructionBlock 0 0 [] (label_token ''label0'') [],
                    InstructionBlock 1 1 [branch_label0_row] (label_token ''label1'') []] \<rparr>"

text \<open>A document of one code block with \<open>2\<^sup>3\<^sup>1 - 1\<close> comment rows.\<close>

definition long_document :: IsaItemModel where
  "long_document =
     IsaItemModel_init
       \<lparr> blocks := [InstructionBlock 0 0 (replicate 2147483647 (CommentRow 0 ''; a comment''))
                      (label_token ''label0'') []] \<rparr>"

subsection \<open>The entries of \<^verbatim>\<open>CacheSizeHints\<close>, and looking an entry up\<close>

lemma cache_rows_indices:
  "fst (cache_rows b i rows (ind, mx)) =
     ind @ map (\<lambda>j. (word_of_nat b, word_of_nat j)) [i..<i + length rows]"
proof (induction rows arbitrary: i ind mx)
  case Nil
  then show ?case by simp
next
  case (Cons r rows)
  obtain a b' c d where mx: "mx = (a, b', c, d)" by (cases mx) auto
  show ?case
    unfolding mx
    by (cases r) (simp_all add: Cons.IH upt_conv_Cons del: upt_Suc)
qed

lemma cache_blocks_indices:
  "fst (cache_blocks b bs (ind, mx)) =
     ind @ concat (map (\<lambda>k. block_entries (b + k) (bs ! k)) [0..<length bs])"
proof (induction bs arbitrary: b ind mx)
  case Nil
  then show ?case by simp
next
  case (Cons x xs)
  obtain ind' mx' where r: "cache_rows b 0 (instruction_lines x) (ind @ [(- 1, word_of_nat b)], mx)
      = (ind', mx')"
    by (cases "cache_rows b 0 (instruction_lines x) (ind @ [(- 1, word_of_nat b)], mx)") auto
  have ind': "ind' = ind @ block_entries b x"
    using cache_rows_indices [of b 0 "instruction_lines x" "ind @ [(- 1, word_of_nat b)]" mx] r
    by (simp add: block_entries_def)
  have up: "[0..<Suc (length xs)] = 0 # map Suc [0..<length xs]"
    by (simp add: upt_conv_Cons map_Suc_upt del: upt_Suc)
  show ?case
    by (simp add: r Cons.IH ind' up o_def del: upt_Suc)
qed

lemma length_block_entries: "length (block_entries k b) = Suc (length (instruction_lines b))"
  by (simp add: block_entries_def)

lemma length_concat_entries:
  "length (concat (map (\<lambda>k. block_entries (b + k) (bs ! k)) [0..<length bs])) = total_lines bs"
proof -
  have "map (\<lambda>k. length (block_entries (b + k) (bs ! k))) [0..<length bs]
          = map (\<lambda>x. Suc (length (instruction_lines x))) bs"
    by (rule nth_equalityI) (simp_all add: length_block_entries)
  then show ?thesis
    by (simp add: length_concat o_def total_lines_def sum_list_Suc)
qed

lemma size_to_int_small: "n < 2 ^ 31 \<Longrightarrow> size_to_int n = int n"
  by (simp add: size_to_int_def signed_of_nat signed_take_bit_int_eq_self)

lemma uint32_to_int_small: "n < 2 ^ 31 \<Longrightarrow> uint32_to_int (word_of_nat n) = int n"
  by (simp add: uint32_to_int_def signed_of_nat signed_take_bit_int_eq_self)

lemma uint32_to_int_minus_one: "uint32_to_int (- 1) = - 1"
  by (simp add: uint32_to_int_def)

lemma index_negative: "index m (- 1) 0 parent_index = Inr QModelIndex_invalid"
  by (simp add: index_def hasIndex_def bind_result_def)

lemma isValid_createIndex: "isValid (createIndex r c p) \<longleftrightarrow> 0 \<le> r \<and> 0 \<le> c"
  by (simp add: isValid_def createIndex_def)

lemma not_isValid_invalid: "\<not> isValid QModelIndex_invalid"
  by (simp add: isValid_def QModelIndex_invalid_def)

lemma invalid_fields:
  "row QModelIndex_invalid = - 1" "column QModelIndex_invalid = - 1"
  "internalPointer QModelIndex_invalid = None"
  by (simp_all add: QModelIndex_invalid_def)

lemma createIndex_fields:
  "row (createIndex r c p) = r" "column (createIndex r c p) = c"
  "internalPointer (createIndex r c p) = p"
  by (simp_all add: createIndex_def)

lemma index_block:
  assumes "length (blocks m) < 2 ^ 31" "k < length (blocks m)"
  shows "index m (int k) 0 QModelIndex_invalid = Inr (createIndex (int k) 0 None)"
  using assms
  by (simp add: index_def hasIndex_def rowCount_def bind_result_def not_isValid_invalid
      size_to_int_small columnCount_def kColumnCount_def invalid_fields)

lemma index_row:
  assumes k: "k < length (blocks m)"
    and j: "j < length (instruction_lines (blocks m ! k))"
    and n: "length (instruction_lines (blocks m ! k)) < 2 ^ 31"
  shows "index m (int j) 0 (createIndex (int k) 0 None) = Inr (createIndex (int j) 0 (Some k))"
proof -
  have p: "parent m (createIndex (int k) 0 None) = Inr QModelIndex_invalid"
    by (simp add: parent_def createIndex_fields)
  have rc: "rowCount m (createIndex (int k) 0 None)
              = Inr (int (length (instruction_lines (blocks m ! k))))"
    using k n
    by (simp add: rowCount_def p bind_result_def not_isValid_invalid isValid_createIndex
        vector_at_def size_to_int_small createIndex_fields)
  show ?thesis
    using j
    by (simp add: index_def hasIndex_def rc bind_result_def isValid_createIndex
        columnCount_def kColumnCount_def createIndex_fields)
qed

lemma rows_le_total:
  "k < length bs \<Longrightarrow> length (instruction_lines (bs ! k)) \<le> total_lines bs"
  using elem_le_sum_list [of k "map (\<lambda>b. length (instruction_lines b)) bs"]
  by (simp add: total_lines_def)

lemma resolve_block_entries:
  assumes t: "total_lines (blocks m) < 2 ^ 31" and k: "k < length (blocks m)"
  shows "map (resolve_pair m) (block_entries k (blocks m ! k))
           = map Inr (block_indices (blocks m) k)"
proof -
  have lb: "length (blocks m) < 2 ^ 31" using t by (simp add: total_lines_def)
  have kb: "k < 2 ^ 31" using k lb by simp
  have lr: "length (instruction_lines (blocks m ! k)) < 2 ^ 31"
    using rows_le_total [OF k] t by simp
  have hd: "resolve_pair m (- 1, word_of_nat k) = Inr (createIndex (int k) 0 None)"
    by (simp add: resolve_pair_def uint32_to_int_minus_one index_negative bind_result_def
        uint32_to_int_small [OF kb] index_block [OF lb k])
  have row: "resolve_pair m (word_of_nat k, word_of_nat j) = Inr (createIndex (int j) 0 (Some k))"
    if "j < length (instruction_lines (blocks m ! k))" for j
  proof -
    have jb: "j < 2 ^ 31" using that lr by simp
    show ?thesis
      by (simp add: resolve_pair_def uint32_to_int_small [OF kb] uint32_to_int_small [OF jb]
          index_block [OF lb k] bind_result_def index_row [OF k that lr])
  qed
  show ?thesis
    by (simp add: block_entries_def block_indices_def hd row)
qed

lemma GetLineNumberModelIndex_nth:
  assumes "n < length (line_number_corresponding_indices m)"
    and "length (line_number_corresponding_indices m) < 2 ^ 31"
  shows "GetLineNumberModelIndex m (int n)
           = resolve_pair m (line_number_corresponding_indices m ! n)"
  using assms
  by (simp add: GetLineNumberModelIndex_def size_to_int_small vector_at_def resolve_pair_def
      bind_result_def Let_def)

lemma CacheSizeHints_blocks: "blocks (CacheSizeHints m) = blocks m"
  by (simp add: CacheSizeHints_def Let_def split: prod.splits)

lemma CacheSizeHints_indices:
  "line_number_corresponding_indices (CacheSizeHints m)
     = concat (map (\<lambda>k. block_entries k (blocks m ! k)) [0..<length (blocks m)])"
proof (cases "blocks m = []")
  case True
  then show ?thesis by (simp add: CacheSizeHints_def Let_def)
next
  case False
  obtain ind a b c d where cb: "cache_blocks 0 (blocks m) ([], 0, 0, 0, 0) = (ind, a, b, c, d)"
    by (cases "cache_blocks 0 (blocks m) ([], 0, 0, 0, 0)") auto
  from cache_blocks_indices [of 0 "blocks m" "[]" "(0, 0, 0, 0)"] cb
  have "ind = concat (map (\<lambda>k. block_entries k (blocks m ! k)) [0..<length (blocks m)])"
    by simp
  with False cb show ?thesis by (simp add: CacheSizeHints_def Let_def)
qed

lemma block_indices_valid: "list_all isValid (block_indices bs b)"
  by (simp add: block_indices_def isValid_createIndex list_all_iff)

lemma block_indices_distinct: "distinct (block_indices bs b)"
proof -
  have "inj_on (\<lambda>r. createIndex (int r) 0 (Some b)) (set [0..<length (instruction_lines (bs ! b))])"
    by (rule inj_onI) (simp add: createIndex_def)
  then have "distinct (map (\<lambda>r. createIndex (int r) 0 (Some b))
               [0..<length (instruction_lines (bs ! b))])"
    by (simp add: distinct_map)
  then show ?thesis
    by (auto simp: block_indices_def createIndex_def)
qed

lemma block_indices_mem:
  "x \<in> set (block_indices bs b) \<longleftrightarrow>
     x = createIndex (int b) 0 None
     \<or> (\<exists>r<length (instruction_lines (bs ! b)). x = createIndex (int r) 0 (Some b))"
  by (auto simp: block_indices_def)

lemma block_indices_disjoint:
  assumes "b \<noteq> b'"
  shows "set (block_indices bs b) \<inter> set (block_indices bs b') = {}"
proof -
  have "x \<notin> set (block_indices bs b')" if "x \<in> set (block_indices bs b)" for x
    using that assms by (auto simp: block_indices_mem createIndex_def)
  then show ?thesis by blast
qed

lemma document_indices_distinct: "distinct (document_indices bs)"
  unfolding document_indices_def
proof (rule distinct_concat)
  have "inj_on (block_indices bs) (set [0..<length bs])"
    by (rule inj_onI) (simp add: block_indices_def createIndex_def)
  then show "distinct (map (block_indices bs) [0..<length bs])"
    by (simp add: distinct_map)
next
  fix ys assume "ys \<in> set (map (block_indices bs) [0..<length bs])"
  then show "distinct ys" by (auto simp: block_indices_distinct)
next
  fix ys zs
  assume "ys \<in> set (map (block_indices bs) [0..<length bs])"
    "zs \<in> set (map (block_indices bs) [0..<length bs])" "ys \<noteq> zs"
  then obtain b b' where "ys = block_indices bs b" "zs = block_indices bs b'" "b \<noteq> b'"
    by auto
  then show "set ys \<inter> set zs = {}"
    by (simp add: block_indices_disjoint)
qed

lemma document_indices_mem:
  "x \<in> set (document_indices bs) \<longleftrightarrow>
     (\<exists>b<length bs. x = createIndex (int b) 0 None
        \<or> (\<exists>r<length (instruction_lines (bs ! b)). x = createIndex (int r) 0 (Some b)))"
  by (auto simp: document_indices_def block_indices_mem)

lemma map_nth_fun: "map (\<lambda>n. f (xs ! n)) [0..<length xs] = map f xs"
  by (rule nth_equalityI) simp_all

subsection \<open>The round trip\<close>

text \<open>
  C2, as amended. For a document of \<open>N\<close> blocks, block \<open>i\<close> with \<open>M\<^sub>i\<close> child rows, whose
  \<open>N + sum M\<^sub>i\<close> lines are fewer than \<open>2\<^sup>3\<^sup>1\<close>, so that they fit the \<^verbatim>\<open>int\<close> that
  \<^verbatim>\<open>GetLineCount\<close> and Qt count rows with, the line count after \<^verbatim>\<open>CacheSizeHints\<close> is
  \<open>N + sum M\<^sub>i\<close>, and \<^verbatim>\<open>GetLineNumberModelIndex\<close> maps the line numbers \<open>0, 1, ...\<close> below
  it to the indices of the document in document order: each block header and each child
  row exactly once, all valid and pairwise distinct.
\<close>

theorem line_index_round_trip:
  assumes t: "total_lines (blocks m) < 2 ^ 31"
  shows "GetLineCount (CacheSizeHints m) = int (total_lines (blocks m))
       \<and> map (GetLineNumberModelIndex (CacheSizeHints m)) (map int [0..<total_lines (blocks m)])
           = map Inr (document_indices (blocks m))
       \<and> distinct (document_indices (blocks m))
       \<and> list_all isValid (document_indices (blocks m))
       \<and> (\<forall>x. x \<in> set (document_indices (blocks m)) \<longleftrightarrow>
             (\<exists>b<length (blocks m). x = createIndex (int b) 0 None
                \<or> (\<exists>r<length (instruction_lines (blocks m ! b)).
                      x = createIndex (int r) 0 (Some b))))"
proof -
  let ?m = "CacheSizeHints m"
  let ?ind = "line_number_corresponding_indices ?m"
  have bl: "blocks ?m = blocks m" by (rule CacheSizeHints_blocks)
  have ind: "?ind = concat (map (\<lambda>k. block_entries k (blocks m ! k)) [0..<length (blocks m)])"
    by (rule CacheSizeHints_indices)
  have len: "length ?ind = total_lines (blocks m)"
    unfolding ind using length_concat_entries [of 0 "blocks m"] by simp
  have count: "GetLineCount ?m = int (total_lines (blocks m))"
    using t by (simp add: GetLineCount_def len size_to_int_small)
  have "map (GetLineNumberModelIndex ?m) (map int [0..<total_lines (blocks m)])
          = map (\<lambda>n. resolve_pair ?m (?ind ! n)) [0..<length ?ind]"
    using t by (simp add: len GetLineNumberModelIndex_nth)
  also have "\<dots> = map (resolve_pair ?m) ?ind"
    by (rule map_nth_fun)
  also have "\<dots> = concat (map (\<lambda>k. map (resolve_pair ?m) (block_entries k (blocks m ! k)))
                        [0..<length (blocks m)])"
    unfolding ind by (simp add: map_concat o_def)
  also have "\<dots> = concat (map (\<lambda>k. map Inr (block_indices (blocks m) k))
                        [0..<length (blocks m)])"
  proof -
    have "map (resolve_pair ?m) (block_entries k (blocks m ! k))
            = map Inr (block_indices (blocks m) k)"
      if "k < length (blocks m)" for k
      using resolve_block_entries [of ?m k] t that by (simp add: bl)
    then show ?thesis by (intro arg_cong [where f = concat] map_cong refl) simp
  qed
  also have "\<dots> = map Inr (document_indices (blocks m))"
    by (simp add: document_indices_def map_concat o_def)
  finally have lookup:
    "map (GetLineNumberModelIndex ?m) (map int [0..<total_lines (blocks m)])
       = map Inr (document_indices (blocks m))" .
  have valid: "list_all isValid (document_indices (blocks m))"
    using block_indices_valid by (auto simp: document_indices_def list_all_iff)
  from count lookup document_indices_distinct valid document_indices_mem
  show ?thesis by blast
qed

theorem line_index_round_trip_witness:
  "GetLineCount (CacheSizeHints two_block_model) = 3
   \<and> map (GetLineNumberModelIndex (CacheSizeHints two_block_model)) [0, 1, 2]
       = [Inr (createIndex 0 0 None), Inr (createIndex 1 0 None),
          Inr (createIndex 0 0 (Some 1))]"
proof -
  have t: "total_lines (blocks two_block_model) = 3" by code_simp
  have d: "document_indices (blocks two_block_model)
             = [createIndex 0 0 None, createIndex 1 0 None, createIndex 0 0 (Some 1)]"
    by code_simp
  have u: "map int [0..<3] = [0, 1, 2]" by code_simp
  have "total_lines (blocks two_block_model) < 2 ^ 31" by (simp add: t)
  from line_index_round_trip [OF this] show ?thesis
    by (simp add: t d u)
qed

text \<open>A document of one block with \<open>2\<^sup>3\<^sup>1 - 1\<close> rows has \<open>2\<^sup>3\<^sup>1\<close> lines; the
  \<^verbatim>\<open>static_cast<int>\<close> of that size is negative.\<close>

theorem line_index_round_trip_counterexample:
  "total_lines (blocks long_document) = 2147483648
   \<and> GetLineCount (CacheSizeHints long_document) = - 2147483648"
proof -
  have t: "total_lines (blocks long_document) = 2147483648"
    by (simp add: total_lines_def long_document_def)
  have "length (line_number_corresponding_indices (CacheSizeHints long_document))
          = total_lines (blocks long_document)"
    unfolding CacheSizeHints_indices
    using length_concat_entries [of 0 "blocks long_document"] by simp
  then have "GetLineCount (CacheSizeHints long_document) = size_to_int 2147483648"
    by (simp add: GetLineCount_def t)
  also have "\<dots> = - 2147483648" by (simp add: size_to_int_def)
  finally show ?thesis using t by simp
qed

section \<open>Branch and label resolution\<close>

subsection \<open>Notions used in the statements and proofs\<close>

text \<open>The block position that the pass looks up for a row: the label map at the first token
  of the first operand of a branch instruction.\<close>

fun branch_target :: "(string \<rightharpoonup> int) \<Rightarrow> Row \<Rightarrow> int option" where
  "branch_target label_to_index (CommentRow _ _) = None"
| "branch_target label_to_index (InstructionRow _ op ops _ _ _) =
     (if is_branch_op_code (token_text op) \<and> ops \<noteq> [] \<and> hd ops \<noteq> []
      then label_to_index (token_text (hd (hd ops))) else None)"

text \<open>The row after the pass: its first operand token points to the target, when there is
  one.\<close>

definition resolve_row :: "(string \<rightharpoonup> int) \<Rightarrow> Row \<Rightarrow> Row" where
  "resolve_row label_to_index r =
     (case branch_target label_to_index r of None \<Rightarrow> r | Some t \<Rightarrow> set_branch_target t r)"

text \<open>A block without its rows and its back-references.\<close>

fun header :: "Block \<Rightarrow> Block" where
  "header (CommentBlock p l rows t) = CommentBlock p l [] t"
| "header (InstructionBlock p l rows t mapped) = InstructionBlock p l [] t []"

text \<open>The back-references of a block; a comment block has none.\<close>

fun mapped_of :: "Block \<Rightarrow> (32 word \<times> 32 word) list" where
  "mapped_of (CommentBlock _ _ _ _) = []"
| "mapped_of (InstructionBlock _ _ _ _ mapped) = mapped"

text \<open>The target of the row at a place \<open>(block, row)\<close>.\<close>

definition tgt :: "(string \<rightharpoonup> int) \<Rightarrow> Block list \<Rightarrow> nat \<times> nat \<Rightarrow> int option" where
  "tgt label_to_index bs p =
     branch_target label_to_index (instruction_lines (bs ! fst p) ! snd p)"

text \<open>The target of a row is the index of a code block: then the loop body does not throw.\<close>

definition target_ok :: "(string \<rightharpoonup> int) \<Rightarrow> Block list \<Rightarrow> nat \<times> nat \<Rightarrow> bool" where
  "target_ok label_to_index bs p =
     (case tgt label_to_index bs p of
        None \<Rightarrow> True
      | Some t \<Rightarrow> 0 \<le> t \<and> nat t < length bs \<and> block_row_type (bs ! nat t) = kCode)"

text \<open>The pair of \<^verbatim>\<open>uint32_t\<close> that the pass stores for a place \<open>(block, row)\<close>.\<close>

definition word_pair :: "nat \<times> nat \<Rightarrow> 32 word \<times> 32 word" where
  "word_pair p = (word_of_nat (fst p), word_of_nat (snd p))"

text \<open>What the loop body does to the blocks when it does not throw.\<close>

definition apply_step :: "(string \<rightharpoonup> int) \<Rightarrow> nat \<times> nat \<Rightarrow> Block list \<Rightarrow> Block list" where
  "apply_step label_to_index p bs =
     (case tgt label_to_index bs p of
        None \<Rightarrow> bs
      | Some t \<Rightarrow>
          let bs1 = bs[nat t := emplace_back_mapped (word_pair p) (bs ! nat t)]
          in bs1[fst p := set_instruction_line (snd p)
                   (set_branch_target t (instruction_lines (bs1 ! fst p) ! snd p))
                   (bs1 ! fst p)])"

text \<open>The loop body at a place.\<close>

definition step :: "(string \<rightharpoonup> int) \<Rightarrow> nat \<times> nat \<Rightarrow> Block list \<Rightarrow> error + Block list" where
  "step label_to_index p bs = map_instruction label_to_index (fst p) (snd p) bs"

text \<open>A place that exists in the document.\<close>

definition valid_position :: "Block list \<Rightarrow> nat \<times> nat \<Rightarrow> bool" where
  "valid_position bs p =
     (fst p < length bs \<and> snd p < length (instruction_lines (bs ! fst p)))"

text \<open>Two block lists that the pass cannot tell apart: the same headers, as many rows, and the
  same target for every row.\<close>

definition similar :: "(string \<rightharpoonup> int) \<Rightarrow> Block list \<Rightarrow> Block list \<Rightarrow> bool" where
  "similar lbl bs bs' =
     (length bs' = length bs
      \<and> (\<forall>k<length bs. header (bs' ! k) = header (bs ! k)
            \<and> length (instruction_lines (bs' ! k)) = length (instruction_lines (bs ! k))
            \<and> (\<forall>j<length (instruction_lines (bs ! k)).
                  branch_target lbl (instruction_lines (bs' ! k) ! j)
                    = branch_target lbl (instruction_lines (bs ! k) ! j))))"

text \<open>The places that the inner loop visits in one block.\<close>

definition block_positions :: "Block list \<Rightarrow> nat \<Rightarrow> (nat \<times> nat) list" where
  "block_positions bs b =
     (case bs ! b of
        CommentBlock _ _ _ _ \<Rightarrow> []
      | InstructionBlock _ _ rows _ _ \<Rightarrow> map (Pair b) [0..<length rows])"

text \<open>The places that the loops visit in a list of blocks.\<close>

definition positions_from :: "Block list \<Rightarrow> nat list \<Rightarrow> (nat \<times> nat) list" where
  "positions_from bs bl = concat (map (block_positions bs) bl)"

text \<open>The places that the pass visits, in order.\<close>

definition positions :: "Block list \<Rightarrow> (nat \<times> nat) list" where
  "positions bs = positions_from bs [0..<length bs]"

text \<open>The back-references that the pass gives to block \<open>k\<close>.\<close>

definition refs :: "(string \<rightharpoonup> int) \<Rightarrow> Block list \<Rightarrow> nat \<Rightarrow> (32 word \<times> 32 word) list" where
  "refs lbl bs k = map word_pair (filter (\<lambda>p. tgt lbl bs p = Some (int k)) (positions bs))"

text \<open>Block \<open>k\<close> after the pass.\<close>

definition resolved_block :: "(string \<rightharpoonup> int) \<Rightarrow> Block list \<Rightarrow> nat \<Rightarrow> Block" where
  "resolved_block lbl bs k =
     (case bs ! k of
        CommentBlock p l rows t \<Rightarrow> CommentBlock p l rows t
      | InstructionBlock p l rows t mapped \<Rightarrow>
          InstructionBlock p l (map (resolve_row lbl) rows) t (mapped @ refs lbl bs k))"

text \<open>The blocks after the pass.\<close>

definition resolved :: "(string \<rightharpoonup> int) \<Rightarrow> Block list \<Rightarrow> Block list" where
  "resolved lbl bs = map (resolved_block lbl bs) [0..<length bs]"

text \<open>The blocks after \<^verbatim>\<open>ClearBranchInstructionMapping\<close>.\<close>

definition cleared_blocks :: "IsaItemModel \<Rightarrow> Block list" where
  "cleared_blocks m = map clear_mapped (blocks m)"

text \<open>The label map after the first loop.\<close>

definition label_map :: "IsaItemModel \<Rightarrow> (string \<rightharpoonup> int)" where
  "label_map m = build_label_map (cleared_blocks m) Map.empty"

text \<open>The invariant of the data model, which the header states for the field \<^verbatim>\<open>position\<close> of a
  block (\<^emph>\<open>this code block's index into this model's data structure\<close>): the \<^verbatim>\<open>position\<close> of a
  code block is its index in \<^verbatim>\<open>blocks_\<close>.\<close>

definition positions_ok :: "Block list \<Rightarrow> bool" where
  "positions_ok bs =
     (\<forall>k<length bs. block_row_type (bs ! k) = kCode \<longrightarrow> position (bs ! k) = int k)"

text \<open>The label of a code block.\<close>

definition block_label :: "Block \<Rightarrow> string option" where
  "block_label b =
     (case b of CommentBlock _ _ _ _ \<Rightarrow> None
      | InstructionBlock _ _ _ t _ \<Rightarrow> Some (token_text t))"

text \<open>A branch candidate for the label \<open>L\<close>: an instruction whose op code is a branch and whose
  first operand token has the text \<open>L\<close>.\<close>

definition branches_to :: "string \<Rightarrow> Row \<Rightarrow> bool" where
  "branches_to L r =
     (case r of
        CommentRow _ _ \<Rightarrow> False
      | InstructionRow _ op ops _ _ _ \<Rightarrow>
          is_branch_op_code (token_text op) \<and> ops \<noteq> [] \<and> hd ops \<noteq> []
          \<and> token_text (hd (hd ops)) = L)"

text \<open>\<^verbatim>\<open>operand_tokens.front().front()\<close> of an instruction.\<close>

definition first_operand_token :: "Row \<Rightarrow> Token" where
  "first_operand_token r = hd (hd (operand_tokens r))"

text \<open>The row \<open>r\<close> of block \<open>b\<close>.\<close>

definition row_at :: "IsaItemModel \<Rightarrow> nat \<Rightarrow> nat \<Rightarrow> Row" where
  "row_at m b r = instruction_lines (blocks m ! b) ! r"

text \<open>\<open>(b, r)\<close> is a row of a code block of the document.\<close>

definition is_row :: "IsaItemModel \<Rightarrow> nat \<Rightarrow> nat \<Rightarrow> bool" where
  "is_row m b r =
     (b < length (blocks m) \<and> block_row_type (blocks m ! b) = kCode
      \<and> r < length (instruction_lines (blocks m ! b)))"

text \<open>The document with another row in the place of row \<open>r\<close> of block \<open>b\<close>.\<close>

definition replace_row :: "IsaItemModel \<Rightarrow> nat \<Rightarrow> nat \<Rightarrow> Row \<Rightarrow> IsaItemModel" where
  "replace_row m b r row' =
     m \<lparr> blocks := (blocks m)[b := set_instruction_line r row' (blocks m ! b)] \<rparr>"

text \<open>A row for which the pass looks a label up.\<close>

definition is_branch_row :: "Row \<Rightarrow> bool" where
  "is_branch_row r =
     (case r of
        CommentRow _ _ \<Rightarrow> False
      | InstructionRow _ op ops _ _ _ \<Rightarrow>
          is_branch_op_code (token_text op) \<and> ops \<noteq> [] \<and> hd ops \<noteq> [])"

text \<open>An instruction with one operand of one word, as \<^verbatim>\<open>ParseSelectableTokens\<close> leaves the
  tokens of a branch.\<close>

definition branch_row :: "string \<Rightarrow> string \<Rightarrow> Row" where
  "branch_row op_code target =
     InstructionRow 2 (Clear \<lparr> token_text := op_code, is_selectable := True \<rparr>)
       [[Clear \<lparr> token_text := target, type := kBranchLabelType \<rparr>]]
       ''000000000000'' ''BFA0FFFF'' True"

text \<open>Two blocks with the label \<^verbatim>\<open>loop\<close> and a branch to it.\<close>

definition duplicate_label_model :: IsaItemModel where
  "duplicate_label_model =
     IsaItemModel_init
       \<lparr> blocks := [InstructionBlock 0 0 [] (label_token ''loop'') [],
                    InstructionBlock 1 1 [] (label_token ''loop'') [],
                    InstructionBlock 2 2 [branch_row ''s_branch'' ''loop'']
                      (label_token ''exit'') []] \<rparr>"

text \<open>A block with a branch to a label that no block has, and a branch to its own label.\<close>

definition missing_label_model :: IsaItemModel where
  "missing_label_model =
     IsaItemModel_init
       \<lparr> blocks := [InstructionBlock 0 0
                      [branch_row ''s_branch'' ''label_missing'',
                       branch_row ''s_cbranch_scc0'' ''label0'']
                      (label_token ''label0'') []] \<rparr>"

text \<open>The two-block document after the pass.\<close>

definition two_block_resolved :: IsaItemModel where
  "two_block_resolved =
     IsaItemModel_init
       \<lparr> blocks :=
           [InstructionBlock 0 0 [] (label_token ''label0'') [(1, 0)],
            InstructionBlock 1 1
              [InstructionRow 2 (Clear \<lparr> token_text := ''s_branch'', is_selectable := True \<rparr>)
                 [[Clear \<lparr> token_text := ''label0'', type := kBranchLabelType,
                           start_register_index := 0 \<rparr>]]
                 ''000000000000'' ''BFA0FFFF'' True]
              (label_token ''label1'') []] \<rparr>"

text \<open>Three blocks with the label \<^verbatim>\<open>loop\<close> and a branch to it.\<close>

definition triple_label_model :: IsaItemModel where
  "triple_label_model =
     IsaItemModel_init
       \<lparr> blocks := [InstructionBlock 0 0 [] (label_token ''loop'') [],
                    InstructionBlock 1 1 [] (label_token ''loop'') [],
                    InstructionBlock 2 2 [] (label_token ''loop'') [],
                    InstructionBlock 3 3 [branch_row ''s_branch'' ''loop'']
                      (label_token ''exit'') []] \<rparr>"

text \<open>An instruction with the op code \<open>op_code\<close> whose first operand token has the text
  \<open>L\<close>.\<close>

definition instruction_with :: "string \<Rightarrow> string \<Rightarrow> Row \<Rightarrow> bool" where
  "instruction_with op_code L r =
     (case r of
        CommentRow _ _ \<Rightarrow> False
      | InstructionRow _ op ops _ _ _ \<Rightarrow>
          token_text op = op_code \<and> ops \<noteq> [] \<and> hd ops \<noteq> []
          \<and> token_text (hd (hd ops)) = L)"

text \<open>The two-block document with the op code \<^verbatim>\<open>xs_branchy\<close> in the place of \<^verbatim>\<open>s_branch\<close>.\<close>

definition substring_branch_model :: IsaItemModel where
  "substring_branch_model =
     IsaItemModel_init
       \<lparr> blocks := [InstructionBlock 0 0 [] (label_token ''label0'') [],
                    InstructionBlock 1 1 [branch_row ''xs_branchy'' ''label0'']
                      (label_token ''label1'') []] \<rparr>"

subsection \<open>The loop body\<close>

lemma step_ok:
  assumes "target_ok lbl bs p"
  shows "step lbl p bs = Inr (apply_step lbl p bs)"
proof (cases "instruction_lines (bs ! fst p) ! snd p")
  case (CommentRow l t)
  then show ?thesis
    by (simp add: step_def map_instruction_def apply_step_def tgt_def)
next
  case (InstructionRow l op ops pc bin en)
  show ?thesis
  proof (cases "tgt lbl bs p")
    case None
    with InstructionRow show ?thesis
      by (auto simp: step_def map_instruction_def apply_step_def tgt_def Let_def
          is_branch_op_code_def split: option.splits)
  next
    case (Some t)
    with assms have t: "0 \<le> t" "nat t < length bs" "block_row_type (bs ! nat t) = kCode"
      by (simp_all add: target_ok_def)
    from t(3) obtain p' l' rows' t' m' where tb: "bs ! nat t = InstructionBlock p' l' rows' t' m'"
      by (cases "bs ! nat t") auto
    from Some InstructionRow have
      br: "str_find (token_text op) kUnconditionalBranchString \<noteq> None
           \<or> str_find (token_text op) kConditionalBranchString \<noteq> None"
      and ops: "ops \<noteq> []" "hd ops \<noteq> []" and look: "lbl (token_text (hd (hd ops))) = Some t"
      by (auto simp: tgt_def is_branch_op_code_def split: if_splits)
    show ?thesis
      using InstructionRow Some t br ops look
      by (simp add: step_def map_instruction_def apply_step_def Let_def vector_at_def
          bind_result_def tb word_pair_def)
  qed
qed

lemma step_not_ok:
  assumes "\<not> target_ok lbl bs p"
  shows "\<exists>e. step lbl p bs = Inl e"
proof -
  from assms obtain t where Some: "tgt lbl bs p = Some t"
    and bad: "\<not> (0 \<le> t \<and> nat t < length bs \<and> block_row_type (bs ! nat t) = kCode)"
    by (auto simp: target_ok_def split: option.splits)
  from Some obtain l op ops pc bin en where
    r: "instruction_lines (bs ! fst p) ! snd p = InstructionRow l op ops pc bin en"
    by (cases "instruction_lines (bs ! fst p) ! snd p") (auto simp: tgt_def)
  from Some r have
    br: "str_find (token_text op) kUnconditionalBranchString \<noteq> None
         \<or> str_find (token_text op) kConditionalBranchString \<noteq> None"
    and ops: "ops \<noteq> []" "hd ops \<noteq> []" and look: "lbl (token_text (hd (hd ops))) = Some t"
    by (auto simp: tgt_def is_branch_op_code_def split: if_splits)
  show ?thesis
  proof (cases "0 \<le> t \<and> nat t < length bs")
    case False
    then have "vector_at bs t = Inl std_out_of_range"
      by (auto simp: vector_at_def)
    with r br ops look show ?thesis
      by (simp add: step_def map_instruction_def Let_def bind_result_def)
  next
    case True
    with bad obtain p' l' rows' t' where cb: "bs ! nat t = CommentBlock p' l' rows' t'"
      by (cases "bs ! nat t") auto
    from True have "vector_at bs t = Inr (bs ! nat t)"
      by (simp add: vector_at_def)
    with cb r br ops look show ?thesis
      by (simp add: step_def map_instruction_def Let_def bind_result_def)
  qed
qed

lemma nth_list_update_lt:
  "j < length xs \<Longrightarrow> (xs[i := x]) ! j = (if i = j then x else xs ! j)"
  by auto

lemma emplace_back_mapped_simps:
  "header (emplace_back_mapped x b) = header b"
  "instruction_lines (emplace_back_mapped x b) = instruction_lines b"
  "block_row_type (emplace_back_mapped x b) = block_row_type b"
  "mapped_of (emplace_back_mapped x b)
     = (if block_row_type b = kCode then mapped_of b @ [x] else mapped_of b)"
  by (cases b; simp)+

lemma set_instruction_line_simps:
  "header (set_instruction_line i r b) = header b"
  "instruction_lines (set_instruction_line i r b) = (instruction_lines b)[i := r]"
  "block_row_type (set_instruction_line i r b) = block_row_type b"
  "mapped_of (set_instruction_line i r b) = mapped_of b"
  by (cases b; simp)+

lemma branch_target_set_branch_target:
  "branch_target lbl (set_branch_target t r) = branch_target lbl r"
  by (induction t r rule: set_branch_target.induct) simp_all

lemma set_branch_target_twice:
  "set_branch_target t (set_branch_target t r) = set_branch_target t r"
  by (induction t r rule: set_branch_target.induct) simp_all

lemma branch_target_resolve_row: "branch_target lbl (resolve_row lbl r) = branch_target lbl r"
  by (simp add: resolve_row_def branch_target_set_branch_target split: option.splits)

lemma resolve_row_twice: "resolve_row lbl (resolve_row lbl r) = resolve_row lbl r"
  by (cases "branch_target lbl r")
    (simp_all add: resolve_row_def branch_target_set_branch_target set_branch_target_twice)

lemma header_block_row_type: "header b = header b' \<Longrightarrow> block_row_type b = block_row_type b'"
  by (cases b; cases b'; simp)

lemma length_apply_step: "length (apply_step lbl p bs) = length bs"
  by (simp add: apply_step_def Let_def split: option.splits)

lemma header_apply_step:
  "k < length bs \<Longrightarrow> header (apply_step lbl p bs ! k) = header (bs ! k)"
  by (simp add: apply_step_def Let_def nth_list_update_lt emplace_back_mapped_simps
      set_instruction_line_simps split: option.splits)

lemma lines_apply_step:
  assumes "k < length bs"
  shows "instruction_lines (apply_step lbl p bs ! k) =
     (if k = fst p
      then (instruction_lines (bs ! k))
             [snd p := resolve_row lbl (instruction_lines (bs ! k) ! snd p)]
      else instruction_lines (bs ! k))"
proof (cases "tgt lbl bs p")
  case None
  then show ?thesis
    by (simp add: apply_step_def resolve_row_def tgt_def)
next
  case (Some t)
  then show ?thesis
    using assms
    by (simp add: apply_step_def Let_def nth_list_update_lt emplace_back_mapped_simps
        set_instruction_line_simps resolve_row_def tgt_def)
qed

lemma mapped_apply_step:
  assumes k: "k < length bs" and ok: "target_ok lbl bs p"
  shows "mapped_of (apply_step lbl p bs ! k) =
     mapped_of (bs ! k) @ (if tgt lbl bs p = Some (int k) then [word_pair p] else [])"
proof (cases "tgt lbl bs p")
  case None
  then show ?thesis by (simp add: apply_step_def)
next
  case (Some t)
  with ok have t: "0 \<le> t" "nat t < length bs" "block_row_type (bs ! nat t) = kCode"
    by (simp_all add: target_ok_def)
  from t(1) have eq: "t = int k \<longleftrightarrow> nat t = k" by auto
  show ?thesis
    using k t Some
    by (auto simp: apply_step_def Let_def nth_list_update_lt emplace_back_mapped_simps
        set_instruction_line_simps eq)
qed

subsection \<open>The loops\<close>

lemma similar_refl: "similar lbl bs bs"
  by (simp add: similar_def)

lemma similar_trans: "similar lbl bs bs1 \<Longrightarrow> similar lbl bs1 bs2 \<Longrightarrow> similar lbl bs bs2"
  by (simp add: similar_def)

lemma similar_valid: "similar lbl bs bs' \<Longrightarrow> valid_position bs' p = valid_position bs p"
  by (auto simp: similar_def valid_position_def)

lemma similar_tgt:
  "similar lbl bs bs' \<Longrightarrow> valid_position bs p \<Longrightarrow> tgt lbl bs' p = tgt lbl bs p"
  by (simp add: similar_def valid_position_def tgt_def)

lemma similar_target_ok:
  assumes s: "similar lbl bs bs'" and v: "valid_position bs p"
  shows "target_ok lbl bs' p = target_ok lbl bs p"
proof -
  have "block_row_type (bs' ! k) = block_row_type (bs ! k)" if "k < length bs" for k
    using s that by (auto simp: similar_def intro: header_block_row_type)
  moreover have "length bs' = length bs" using s by (simp add: similar_def)
  ultimately show ?thesis
    by (auto simp: target_ok_def similar_tgt [OF s v] split: option.splits)
qed

lemma similar_apply_step: "similar lbl bs (apply_step lbl p bs)"
  by (auto simp: similar_def length_apply_step header_apply_step lines_apply_step
      nth_list_update_lt branch_target_resolve_row)

lemma similar_fold:
  "similar lbl bs (fold (apply_step lbl) ps bs)"
proof (induction ps arbitrary: bs)
  case Nil
  then show ?case by (simp add: similar_refl)
next
  case (Cons p ps)
  from similar_apply_step Cons.IH show ?case
    by (simp, blast intro: similar_trans)
qed

lemma fold_result_steps_ok:
  assumes "\<forall>p\<in>set ps. valid_position bs p" "\<forall>p\<in>set ps. target_ok lbl bs p"
  shows "fold_result (step lbl) ps bs = Inr (fold (apply_step lbl) ps bs)"
  using assms
proof (induction ps arbitrary: bs)
  case Nil
  then show ?case by simp
next
  case (Cons p ps)
  let ?bs1 = "apply_step lbl p bs"
  have s: "similar lbl bs ?bs1" by (rule similar_apply_step)
  from Cons.prems have st: "step lbl p bs = Inr ?bs1" by (simp add: step_ok)
  from Cons.prems have v: "\<forall>q\<in>set ps. valid_position ?bs1 q"
    by (simp add: similar_valid [OF s])
  from Cons.prems have o: "\<forall>q\<in>set ps. target_ok lbl ?bs1 q"
    by (simp add: similar_target_ok [OF s])
  from Cons.IH [OF v o] st show ?case by (simp add: bind_result_def)
qed

lemma fold_result_steps_error:
  assumes "\<forall>p\<in>set ps. valid_position bs p" "\<not> (\<forall>p\<in>set ps. target_ok lbl bs p)"
  shows "\<exists>e. fold_result (step lbl) ps bs = Inl e"
  using assms
proof (induction ps arbitrary: bs)
  case Nil
  then show ?case by simp
next
  case (Cons p ps)
  show ?case
  proof (cases "target_ok lbl bs p")
    case False
    from step_not_ok [OF False] show ?thesis by (auto simp: bind_result_def)
  next
    case True
    let ?bs1 = "apply_step lbl p bs"
    have s: "similar lbl bs ?bs1" by (rule similar_apply_step)
    from True have st: "step lbl p bs = Inr ?bs1" by (rule step_ok)
    from Cons.prems have v: "\<forall>q\<in>set ps. valid_position ?bs1 q"
      by (simp add: similar_valid [OF s])
    from Cons.prems True have o: "\<not> (\<forall>q\<in>set ps. target_ok lbl ?bs1 q)"
      by (auto simp: similar_target_ok [OF s])
    from Cons.IH [OF v o] st show ?thesis by (simp add: bind_result_def)
  qed
qed

lemma lines_fold:
  assumes "k < length bs" "j < length (instruction_lines (bs ! k))"
  shows "instruction_lines (fold (apply_step lbl) ps bs ! k) ! j =
     (if (k, j) \<in> set ps then resolve_row lbl (instruction_lines (bs ! k) ! j)
      else instruction_lines (bs ! k) ! j)"
  using assms
proof (induction ps arbitrary: bs)
  case Nil
  then show ?case by simp
next
  case (Cons p ps)
  let ?bs1 = "apply_step lbl p bs"
  have k1: "k < length ?bs1" using Cons.prems by (simp add: length_apply_step)
  have l1: "instruction_lines (?bs1 ! k) ! j =
      (if (k, j) = p then resolve_row lbl (instruction_lines (bs ! k) ! j)
       else instruction_lines (bs ! k) ! j)"
    using Cons.prems
    by (cases p) (auto simp: lines_apply_step nth_list_update_lt)
  have j1: "j < length (instruction_lines (?bs1 ! k))"
    using Cons.prems by (auto simp: lines_apply_step)
  from Cons.IH [OF k1 j1] l1 show ?case
    by (auto simp: resolve_row_twice)
qed

lemma mapped_fold:
  assumes "k < length bs" "\<forall>p\<in>set ps. valid_position bs p" "\<forall>p\<in>set ps. target_ok lbl bs p"
  shows "mapped_of (fold (apply_step lbl) ps bs ! k) =
     mapped_of (bs ! k) @ map word_pair (filter (\<lambda>p. tgt lbl bs p = Some (int k)) ps)"
  using assms
proof (induction ps arbitrary: bs)
  case Nil
  then show ?case by simp
next
  case (Cons p ps)
  let ?bs1 = "apply_step lbl p bs"
  have s: "similar lbl bs ?bs1" by (rule similar_apply_step)
  have k1: "k < length ?bs1" using Cons.prems by (simp add: length_apply_step)
  from Cons.prems have v: "\<forall>q\<in>set ps. valid_position ?bs1 q"
    by (simp add: similar_valid [OF s])
  from Cons.prems have o: "\<forall>q\<in>set ps. target_ok lbl ?bs1 q"
    by (simp add: similar_target_ok [OF s])
  have f: "filter (\<lambda>q. tgt lbl ?bs1 q = Some (int k)) ps
             = filter (\<lambda>q. tgt lbl bs q = Some (int k)) ps"
    using Cons.prems by (intro filter_cong refl) (simp add: similar_tgt [OF s])
  from Cons.prems have m1: "mapped_of (?bs1 ! k) =
      mapped_of (bs ! k) @ (if tgt lbl bs p = Some (int k) then [word_pair p] else [])"
    by (simp add: mapped_apply_step)
  from Cons.IH [OF k1 v o] show ?case
    by (simp add: f m1)
qed

lemma fold_result_append:
  "fold_result f (xs @ ys) s = bind_result (fold_result f xs s) (fold_result f ys)"
  by (induction xs arbitrary: s) (auto simp: bind_result_def split: sum.splits)

lemma fold_result_map: "fold_result f (map g xs) s = fold_result (\<lambda>x. f (g x)) xs s"
  by (induction xs arbitrary: s) (auto simp: bind_result_def split: sum.splits)

lemma step_pair: "step lbl (b, i) = map_instruction lbl b i"
  by (rule ext) (simp add: step_def)

lemma map_block_positions:
  "map_block lbl b bs = fold_result (step lbl) (block_positions bs b) bs"
  by (cases "bs ! b")
    (simp_all add: map_block_def block_positions_def fold_result_map step_pair)

lemma block_positions_mem:
  "(k, j) \<in> set (block_positions bs b) \<longleftrightarrow>
     k = b \<and> block_row_type (bs ! b) = kCode \<and> j < length (instruction_lines (bs ! b))"
  by (cases "bs ! b") (auto simp: block_positions_def)

lemma positions_from_mem:
  "(k, j) \<in> set (positions_from bs bl) \<longleftrightarrow>
     k \<in> set bl \<and> block_row_type (bs ! k) = kCode \<and> j < length (instruction_lines (bs ! k))"
  by (auto simp: positions_from_def block_positions_mem)

lemma positions_mem:
  "(k, j) \<in> set (positions bs) \<longleftrightarrow>
     k < length bs \<and> block_row_type (bs ! k) = kCode \<and> j < length (instruction_lines (bs ! k))"
  by (auto simp: positions_def positions_from_mem)

lemma positions_from_valid:
  "\<forall>b\<in>set bl. b < length bs \<Longrightarrow> \<forall>p\<in>set (positions_from bs bl). valid_position bs p"
  by (auto simp: positions_from_mem valid_position_def)

lemma similar_block_positions:
  assumes "similar lbl bs bs'" "b < length bs"
  shows "block_positions bs' b = block_positions bs b"
proof -
  from assms have h: "header (bs' ! b) = header (bs ! b)"
    and l: "length (instruction_lines (bs' ! b)) = length (instruction_lines (bs ! b))"
    by (simp_all add: similar_def)
  then show ?thesis
    by (cases "bs ! b"; cases "bs' ! b") (simp_all add: block_positions_def)
qed

lemma similar_positions_from:
  assumes "similar lbl bs bs'" "\<forall>b\<in>set bl. b < length bs"
  shows "positions_from bs' bl = positions_from bs bl"
  unfolding positions_from_def
  using assms by (intro arg_cong [where f = concat] map_cong refl)
    (simp add: similar_block_positions)

lemma fold_result_steps_Inr:
  assumes v: "\<forall>p\<in>set ps. valid_position bs p"
    and r: "fold_result (step lbl) ps bs = Inr bs'"
  shows "(\<forall>p\<in>set ps. target_ok lbl bs p) \<and> bs' = fold (apply_step lbl) ps bs"
proof (cases "\<forall>p\<in>set ps. target_ok lbl bs p")
  case True
  with fold_result_steps_ok [OF v True] r show ?thesis by simp
next
  case False
  from fold_result_steps_error [OF v False] r show ?thesis by auto
qed

lemma fold_blocks_flat:
  assumes "\<forall>b\<in>set bl. b < length bs"
  shows "fold_result (map_block lbl) bl bs = fold_result (step lbl) (positions_from bs bl) bs"
  using assms
proof (induction bl arbitrary: bs)
  case Nil
  then show ?case by (simp add: positions_from_def)
next
  case (Cons b bl)
  have b: "b < length bs" using Cons.prems by simp
  have split: "positions_from bs (b # bl) = block_positions bs b @ positions_from bs bl"
    by (simp add: positions_from_def)
  have vb: "\<forall>p\<in>set (block_positions bs b). valid_position bs p"
    using b by (auto simp: block_positions_mem valid_position_def)
  show ?case
  proof (cases "fold_result (step lbl) (block_positions bs b) bs")
    case (Inl e)
    then show ?thesis
      by (simp add: split fold_result_append map_block_positions bind_result_def)
  next
    case (Inr bs1)
    from fold_result_steps_Inr [OF vb Inr] have
      bs1: "bs1 = fold (apply_step lbl) (block_positions bs b) bs" by simp
    have s: "similar lbl bs bs1" unfolding bs1 by (rule similar_fold)
    have l: "\<forall>b\<in>set bl. b < length bs1" using Cons.prems s by (simp add: similar_def)
    have p: "positions_from bs1 bl = positions_from bs bl"
      using s Cons.prems by (intro similar_positions_from) simp_all
    from Cons.IH [OF l] p Inr show ?thesis
      by (simp add: split fold_result_append map_block_positions bind_result_def)
  qed
qed

lemma positions_valid: "\<forall>p\<in>set (positions bs). valid_position bs p"
  unfolding positions_def by (rule positions_from_valid) simp

lemma pass_Inr:
  assumes "fold_result (map_block lbl) [0..<length bs] bs = Inr bs'"
  shows "(\<forall>p\<in>set (positions bs). target_ok lbl bs p)
       \<and> bs' = fold (apply_step lbl) (positions bs) bs"
proof -
  have "fold_result (map_block lbl) [0..<length bs] bs
          = fold_result (step lbl) (positions bs) bs"
    unfolding positions_def by (rule fold_blocks_flat) simp
  with assms have "fold_result (step lbl) (positions bs) bs = Inr bs'" by simp
  from fold_result_steps_Inr [OF positions_valid this] show ?thesis .
qed

lemma pass_ok:
  assumes "\<forall>p\<in>set (positions bs). target_ok lbl bs p"
  shows "fold_result (map_block lbl) [0..<length bs] bs
           = Inr (fold (apply_step lbl) (positions bs) bs)"
proof -
  have "fold_result (map_block lbl) [0..<length bs] bs
          = fold_result (step lbl) (positions bs) bs"
    unfolding positions_def by (rule fold_blocks_flat) simp
  with fold_result_steps_ok [OF positions_valid assms] show ?thesis by simp
qed

lemma block_eqI:
  "header b = header b' \<Longrightarrow> instruction_lines b = instruction_lines b' \<Longrightarrow>
   mapped_of b = mapped_of b' \<Longrightarrow> b = b'"
  by (cases b; cases b'; simp)

lemma resolved_block_simps:
  "header (resolved_block lbl bs k) = header (bs ! k)"
  "instruction_lines (resolved_block lbl bs k) =
     (if block_row_type (bs ! k) = kCode then map (resolve_row lbl) (instruction_lines (bs ! k))
      else instruction_lines (bs ! k))"
  "mapped_of (resolved_block lbl bs k) =
     (if block_row_type (bs ! k) = kCode then mapped_of (bs ! k) @ refs lbl bs k else [])"
  by (cases "bs ! k"; simp add: resolved_block_def)+

lemma fold_positions_nth:
  assumes k: "k < length bs" and ok: "\<forall>p\<in>set (positions bs). target_ok lbl bs p"
  shows "fold (apply_step lbl) (positions bs) bs ! k = resolved_block lbl bs k"
proof (rule block_eqI)
  let ?bs' = "fold (apply_step lbl) (positions bs) bs"
  have s: "similar lbl bs ?bs'" by (rule similar_fold)
  from s k show "header (?bs' ! k) = header (resolved_block lbl bs k)"
    by (simp add: similar_def resolved_block_simps)
  show "instruction_lines (?bs' ! k) = instruction_lines (resolved_block lbl bs k)"
  proof (rule nth_equalityI)
    from s k show "length (instruction_lines (?bs' ! k))
        = length (instruction_lines (resolved_block lbl bs k))"
      by (simp add: similar_def resolved_block_simps)
  next
    fix j assume "j < length (instruction_lines (?bs' ! k))"
    with s k have j: "j < length (instruction_lines (bs ! k))" by (simp add: similar_def)
    from lines_fold [OF k j, of lbl "positions bs"] k j
    show "instruction_lines (?bs' ! k) ! j = instruction_lines (resolved_block lbl bs k) ! j"
      by (simp add: positions_mem resolved_block_simps)
  qed
  from mapped_fold [OF k positions_valid ok]
  show "mapped_of (?bs' ! k) = mapped_of (resolved_block lbl bs k)"
  proof (cases "block_row_type (bs ! k) = kCode")
    case True
    with mapped_fold [OF k positions_valid ok] show ?thesis
      by (simp add: resolved_block_simps refs_def)
  next
    case False
    have h: "header (?bs' ! k) = header (bs ! k)" using s k by (simp add: similar_def)
    with False have "block_row_type (?bs' ! k) \<noteq> kCode"
      using header_block_row_type [OF h] by simp
    then have "mapped_of (?bs' ! k) = []" by (cases "?bs' ! k") simp_all
    with False show ?thesis by (simp add: resolved_block_simps)
  qed
qed

lemma fold_positions_resolved:
  assumes "\<forall>p\<in>set (positions bs). target_ok lbl bs p"
  shows "fold (apply_step lbl) (positions bs) bs = resolved lbl bs"
proof (rule nth_equalityI)
  have "similar lbl bs (fold (apply_step lbl) (positions bs) bs)" by (rule similar_fold)
  then show "length (fold (apply_step lbl) (positions bs) bs) = length (resolved lbl bs)"
    by (simp add: similar_def resolved_def)
next
  fix k assume "k < length (fold (apply_step lbl) (positions bs) bs)"
  moreover have "similar lbl bs (fold (apply_step lbl) (positions bs) bs)" by (rule similar_fold)
  ultimately have k: "k < length bs" by (simp add: similar_def)
  from fold_positions_nth [OF k assms] k
  show "fold (apply_step lbl) (positions bs) bs ! k = resolved lbl bs ! k"
    by (simp add: resolved_def)
qed

lemma MapBlocks_Inr:
  assumes ne: "blocks m \<noteq> []"
  shows "MapBlocksToBranchInstructions m = Inr m' \<longleftrightarrow>
     (\<forall>p\<in>set (positions (cleared_blocks m)). target_ok (label_map m) (cleared_blocks m) p)
     \<and> m' = m \<lparr> blocks := resolved (label_map m) (cleared_blocks m),
                code_block_label_to_index := Map.empty \<rparr>"
proof -
  let ?bs = "cleared_blocks m" and ?lbl = "label_map m"
  have unfold: "MapBlocksToBranchInstructions m =
     bind_result (fold_result (map_block ?lbl) [0..<length ?bs] ?bs)
       (\<lambda>bs. Inr (m \<lparr> blocks := bs, code_block_label_to_index := Map.empty \<rparr>))"
    using ne
    by (simp add: MapBlocksToBranchInstructions_def ClearBranchInstructionMapping_def Let_def
        cleared_blocks_def label_map_def)
  show ?thesis
  proof
    assume r: "MapBlocksToBranchInstructions m = Inr m'"
    then obtain bs' where f: "fold_result (map_block ?lbl) [0..<length ?bs] ?bs = Inr bs'"
      and m': "m' = m \<lparr> blocks := bs', code_block_label_to_index := Map.empty \<rparr>"
      unfolding unfold by (auto simp: bind_result_def split: sum.splits)
    from pass_Inr [OF f] have ok: "\<forall>p\<in>set (positions ?bs). target_ok ?lbl ?bs p"
      and bs': "bs' = fold (apply_step ?lbl) (positions ?bs) ?bs" by simp_all
    from fold_positions_resolved [OF ok] bs' m' ok
    show "(\<forall>p\<in>set (positions ?bs). target_ok ?lbl ?bs p)
       \<and> m' = m \<lparr> blocks := resolved ?lbl ?bs, code_block_label_to_index := Map.empty \<rparr>"
      by simp
  next
    assume a: "(\<forall>p\<in>set (positions ?bs). target_ok ?lbl ?bs p)
       \<and> m' = m \<lparr> blocks := resolved ?lbl ?bs, code_block_label_to_index := Map.empty \<rparr>"
    then have ok: "\<forall>p\<in>set (positions ?bs). target_ok ?lbl ?bs p" by simp
    from pass_ok [OF ok] fold_positions_resolved [OF ok] a
    show "MapBlocksToBranchInstructions m = Inr m'"
      unfolding unfold by (simp add: bind_result_def)
  qed
qed

subsection \<open>The label map\<close>

lemma block_label_Some:
  "block_label b = Some L \<longleftrightarrow> block_row_type b = kCode \<and> token_text (token b) = L"
  by (cases b) (auto simp: block_label_def)

lemma build_label_map_absent:
  "(\<forall>k<length bs. block_label (bs ! k) \<noteq> Some L) \<Longrightarrow> build_label_map bs lbl0 L = lbl0 L"
proof (induction bs lbl0 rule: build_label_map.induct)
  case (1 lbl0)
  then show ?case by simp
next
  case (2 p l rows t rest lbl0)
  from "2.prems" have "\<forall>k<length rest. block_label (rest ! k) \<noteq> Some L" by auto
  with "2.IH" show ?case by simp
next
  case (3 p l rows t m rest lbl0)
  from "3.prems" have r: "\<forall>k<length rest. block_label (rest ! k) \<noteq> Some L" by auto
  from "3.prems" have "block_label (InstructionBlock p l rows t m) \<noteq> Some L" by auto
  then have ne: "token_text t \<noteq> L" by (simp add: block_label_def)
  have "build_label_map rest (lbl0(token_text t \<mapsto> p)) L = (lbl0(token_text t \<mapsto> p)) L"
    by (rule "3.IH" [OF r])
  also have "\<dots> = lbl0 L" using ne by simp
  finally show ?case by (simp only: build_label_map.simps)
qed

lemma build_label_map_last:
  assumes "j < length bs" "block_label (bs ! j) = Some L"
    "\<forall>k<length bs. j < k \<longrightarrow> block_label (bs ! k) \<noteq> Some L"
  shows "build_label_map bs lbl0 L = Some (position (bs ! j))"
  using assms
proof (induction bs lbl0 arbitrary: j rule: build_label_map.induct)
  case (1 lbl0)
  then show ?case by simp
next
  case (2 p l rows t rest lbl0)
  from "2.prems"(2) have "j \<noteq> 0" by (auto simp: block_label_def intro: ccontr)
  then obtain j' where j: "j = Suc j'" by (cases j) auto
  from "2.prems" j have "j' < length rest" "block_label (rest ! j') = Some L"
    "\<forall>k<length rest. j' < k \<longrightarrow> block_label (rest ! k) \<noteq> Some L"
    by auto
  from "2.IH" [OF this]
  have "build_label_map rest lbl0 L = Some (position (rest ! j'))" .
  then show ?case
    unfolding j by (simp only: build_label_map.simps nth_Cons_Suc)
next
  case (3 p l rows t m rest lbl0)
  show ?case
  proof (cases j)
    case 0
    with "3.prems" have t: "token_text t = L" by (simp add: block_label_def)
    from "3.prems" 0 have "\<forall>k<length rest. block_label (rest ! k) \<noteq> Some L" by auto
    from build_label_map_absent [OF this]
    have "build_label_map rest (lbl0(token_text t \<mapsto> p)) L = (lbl0(token_text t \<mapsto> p)) L" .
    also have "\<dots> = Some p" using t by simp
    finally show ?thesis
      unfolding 0 by (simp only: build_label_map.simps nth_Cons_0 Block.sel)
  next
    case (Suc j')
    with "3.prems" have "j' < length rest" "block_label (rest ! j') = Some L"
      "\<forall>k<length rest. j' < k \<longrightarrow> block_label (rest ! k) \<noteq> Some L"
      by auto
    from "3.IH" [OF this]
    have "build_label_map rest (lbl0(token_text t \<mapsto> p)) L = Some (position (rest ! j'))" .
    then show ?thesis
      unfolding Suc by (simp only: build_label_map.simps nth_Cons_Suc)
  qed
qed

lemma build_label_map_Some:
  assumes "build_label_map bs lbl0 L = Some p"
  shows "lbl0 L = Some p
       \<or> (\<exists>k<length bs. block_label (bs ! k) = Some L \<and> position (bs ! k) = p)"
  using assms
proof (induction bs lbl0 rule: build_label_map.induct)
  case (1 lbl0)
  then show ?case by simp
next
  case (2 p' l rows t rest lbl0)
  from "2.IH" "2.prems" have "lbl0 L = Some p
       \<or> (\<exists>k<length rest. block_label (rest ! k) = Some L \<and> position (rest ! k) = p)"
    by simp
  then show ?case by auto
next
  case (3 p' l rows t m rest lbl0)
  from "3.prems" have "build_label_map rest (lbl0(token_text t \<mapsto> p')) L = Some p"
    by (simp only: build_label_map.simps)
  from "3.IH" [OF this] have "(lbl0(token_text t \<mapsto> p')) L = Some p
       \<or> (\<exists>k<length rest. block_label (rest ! k) = Some L \<and> position (rest ! k) = p)" .
  then show ?case
  proof
    assume a: "(lbl0(token_text t \<mapsto> p')) L = Some p"
    show ?thesis
    proof (cases "token_text t = L")
      case True
      with a have "p' = p" by simp
      with True have "block_label ((InstructionBlock p' l rows t m # rest) ! 0) = Some L
        \<and> position ((InstructionBlock p' l rows t m # rest) ! 0) = p"
        by (simp add: block_label_def)
      then show ?thesis by (intro disjI2 exI [of _ 0]) (simp add: block_label_def)
    next
      case False
      with a show ?thesis by simp
    qed
  next
    assume "\<exists>k<length rest. block_label (rest ! k) = Some L \<and> position (rest ! k) = p"
    then obtain k where "k < length rest" "block_label (rest ! k) = Some L"
      "position (rest ! k) = p" by blast
    then show ?thesis by (intro disjI2 exI [of _ "Suc k"]) simp
  qed
qed

lemma build_label_map_header:
  "map header bs = map header bs' \<Longrightarrow> build_label_map bs lbl0 = build_label_map bs' lbl0"
proof (induction bs lbl0 arbitrary: bs' rule: build_label_map.induct)
  case (1 lbl0)
  then show ?case by simp
next
  case (2 p l rows t rest lbl0)
  then obtain b' rest' where bs': "bs' = b' # rest'" by (cases bs') auto
  with "2.prems" obtain rows' where "b' = CommentBlock p l rows' t" by (cases b') auto
  with "2.IH" [of rest'] "2.prems" bs' show ?case by simp
next
  case (3 p l rows t m rest lbl0)
  then obtain b' rest' where bs': "bs' = b' # rest'" by (cases bs') auto
  with "3.prems" obtain rows' m' where "b' = InstructionBlock p l rows' t m'"
    by (cases b') auto
  with "3.prems" bs' have b': "bs' = InstructionBlock p l rows' t m' # rest'"
    and r: "map header rest = map header rest'" by simp_all
  from "3.IH" [OF r] show ?case
    unfolding b' by (simp only: build_label_map.simps)
qed

lemma clear_mapped_simps:
  "header (clear_mapped b) = header b"
  "instruction_lines (clear_mapped b) = instruction_lines b"
  "block_row_type (clear_mapped b) = block_row_type b"
  "position (clear_mapped b) = position b"
  "block_label (clear_mapped b) = block_label b"
  "mapped_of (clear_mapped b) = []"
  by (cases b; simp add: block_label_def)+

lemma tgt_Some_label:
  assumes "tgt lbl bs p = Some t"
  shows "\<exists>L. lbl L = Some t"
proof (cases "instruction_lines (bs ! fst p) ! snd p")
  case (CommentRow l c)
  with assms show ?thesis by (simp add: tgt_def)
next
  case (InstructionRow l op ops pc bin en)
  with assms show ?thesis by (auto simp: tgt_def split: if_splits)
qed

lemma cleared_length: "length (cleared_blocks m) = length (blocks m)"
  by (simp add: cleared_blocks_def)

lemma cleared_nth:
  "k < length (blocks m) \<Longrightarrow> cleared_blocks m ! k = clear_mapped (blocks m ! k)"
  by (simp add: cleared_blocks_def)

lemma label_map_Some:
  assumes "label_map m L = Some t"
  shows "\<exists>k<length (blocks m). block_label (blocks m ! k) = Some L \<and> position (blocks m ! k) = t"
proof -
  from build_label_map_Some [OF assms [unfolded label_map_def]]
  obtain k where "k < length (cleared_blocks m)" "block_label (cleared_blocks m ! k) = Some L"
    "position (cleared_blocks m ! k) = t" by auto
  then show ?thesis
    by (auto simp: cleared_length cleared_nth clear_mapped_simps)
qed

lemma positions_ok_target_ok:
  assumes "positions_ok (blocks m)"
  shows "target_ok (label_map m) (cleared_blocks m) p"
proof (cases "tgt (label_map m) (cleared_blocks m) p")
  case None
  then show ?thesis by (simp add: target_ok_def)
next
  case (Some t)
  from tgt_Some_label [OF Some] obtain L where "label_map m L = Some t" by blast
  from label_map_Some [OF this] obtain k where k: "k < length (blocks m)"
    and l: "block_label (blocks m ! k) = Some L" and p: "position (blocks m ! k) = t" by blast
  from l have c: "block_row_type (blocks m ! k) = kCode" by (simp add: block_label_Some)
  with assms k p have "t = int k" by (auto simp: positions_ok_def)
  with k c Some show ?thesis
    by (simp add: target_ok_def cleared_length cleared_nth clear_mapped_simps)
qed

lemma MapBlocks_positions_ok:
  assumes "blocks m \<noteq> []" "positions_ok (blocks m)"
  shows "MapBlocksToBranchInstructions m =
     Inr (m \<lparr> blocks := resolved (label_map m) (cleared_blocks m),
               code_block_label_to_index := Map.empty \<rparr>)"
  using MapBlocks_Inr [OF assms(1)] positions_ok_target_ok [OF assms(2)] by blast

subsection \<open>Running the pass again\<close>

lemma length_resolved: "length (resolved lbl bs) = length bs"
  by (simp add: resolved_def)

lemma resolved_nth: "k < length bs \<Longrightarrow> resolved lbl bs ! k = resolved_block lbl bs k"
  by (simp add: resolved_def)

lemma similar_positions: "similar lbl bs bs' \<Longrightarrow> positions bs' = positions bs"
  unfolding positions_def
  by (frule similar_positions_from [where bl = "[0..<length bs]"])
    (simp_all add: similar_def)

lemma similar_refs:
  assumes "similar lbl bs bs'"
  shows "refs lbl bs' k = refs lbl bs k"
proof -
  have "filter (\<lambda>p. tgt lbl bs' p = Some (int k)) (positions bs)
          = filter (\<lambda>p. tgt lbl bs p = Some (int k)) (positions bs)"
    using positions_valid [of bs]
    by (intro filter_cong refl) (simp add: similar_tgt [OF assms])
  then show ?thesis by (simp add: refs_def similar_positions [OF assms])
qed

lemma similar_cleared_resolved:
  "similar lbl bs (map clear_mapped (resolved lbl bs))"
  by (auto simp: similar_def length_resolved resolved_nth clear_mapped_simps
      resolved_block_simps branch_target_resolve_row)

lemma resolved_again:
  assumes c: "\<forall>k<length bs. mapped_of (bs ! k) = []"
  shows "resolved lbl (map clear_mapped (resolved lbl bs)) = resolved lbl bs"
proof (rule nth_equalityI)
  show "length (resolved lbl (map clear_mapped (resolved lbl bs))) = length (resolved lbl bs)"
    by (simp add: length_resolved)
next
  fix k assume "k < length (resolved lbl (map clear_mapped (resolved lbl bs)))"
  then have k: "k < length bs" by (simp add: length_resolved)
  let ?bs' = "map clear_mapped (resolved lbl bs)"
  have s: "similar lbl bs ?bs'" by (rule similar_cleared_resolved)
  have n: "?bs' ! k = clear_mapped (resolved_block lbl bs k)"
    using k by (simp add: length_resolved resolved_nth)
  have t: "block_row_type (?bs' ! k) = block_row_type (bs ! k)"
    unfolding n
    by (rule header_block_row_type) (simp add: clear_mapped_simps resolved_block_simps)
  have "resolved_block lbl ?bs' k = resolved_block lbl bs k"
  proof (rule block_eqI)
    show "header (resolved_block lbl ?bs' k) = header (resolved_block lbl bs k)"
      by (simp add: resolved_block_simps n clear_mapped_simps)
    show "instruction_lines (resolved_block lbl ?bs' k)
            = instruction_lines (resolved_block lbl bs k)"
      by (simp add: resolved_block_simps(2) t, simp add: n clear_mapped_simps
          resolved_block_simps resolve_row_twice)
    show "mapped_of (resolved_block lbl ?bs' k) = mapped_of (resolved_block lbl bs k)"
      using c k
      by (simp add: resolved_block_simps(3) t similar_refs [OF s], simp add: n clear_mapped_simps)
  qed
  with k show "resolved lbl ?bs' ! k = resolved lbl bs ! k"
    by (simp add: resolved_nth length_resolved)
qed

lemma cleared_mapped_of: "\<forall>k<length (cleared_blocks m). mapped_of (cleared_blocks m ! k) = []"
  by (simp add: cleared_blocks_def clear_mapped_simps)

lemma MapBlocks_InrD:
  assumes "blocks m \<noteq> []" "MapBlocksToBranchInstructions m = Inr m'"
  shows "\<forall>p\<in>set (positions (cleared_blocks m)). target_ok (label_map m) (cleared_blocks m) p"
    and "m' = m \<lparr> blocks := resolved (label_map m) (cleared_blocks m),
                    code_block_label_to_index := Map.empty \<rparr>"
  using MapBlocks_Inr [OF assms(1), of m'] assms(2) by blast+

lemma MapBlocks_InrI:
  assumes "blocks m \<noteq> []"
    "\<forall>p\<in>set (positions (cleared_blocks m)). target_ok (label_map m) (cleared_blocks m) p"
  shows "MapBlocksToBranchInstructions m =
     Inr (m \<lparr> blocks := resolved (label_map m) (cleared_blocks m),
               code_block_label_to_index := Map.empty \<rparr>)"
  using MapBlocks_Inr [OF assms(1)] assms(2) by blast

lemma MapBlocks_again:
  assumes r: "MapBlocksToBranchInstructions m = Inr m1"
  shows "MapBlocksToBranchInstructions m1 = Inr m1"
proof (cases "blocks m = []")
  case True
  with r show ?thesis by (simp add: MapBlocksToBranchInstructions_def)
next
  case False
  let ?bs = "cleared_blocks m" and ?lbl = "label_map m"
  from MapBlocks_InrD [OF False r] have
    ok: "\<forall>p\<in>set (positions ?bs). target_ok ?lbl ?bs p"
    and m1: "m1 = m \<lparr> blocks := resolved ?lbl ?bs, code_block_label_to_index := Map.empty \<rparr>"
    by simp_all
  have b1: "blocks m1 = resolved ?lbl ?bs" by (simp add: m1)
  have ne: "blocks m1 \<noteq> []"
    using False by (simp add: b1 resolved_def cleared_length)
  have c1: "cleared_blocks m1 = map clear_mapped (resolved ?lbl ?bs)"
    by (simp add: cleared_blocks_def b1)
  have s: "similar ?lbl ?bs (cleared_blocks m1)"
    unfolding c1 by (rule similar_cleared_resolved)
  have "map header (cleared_blocks m1) = map header ?bs"
    by (rule nth_equalityI) (use s in \<open>simp_all add: similar_def\<close>)
  then have l1: "label_map m1 = ?lbl"
    unfolding label_map_def by (rule build_label_map_header)
  have ok1: "\<forall>p\<in>set (positions (cleared_blocks m1)).
               target_ok (label_map m1) (cleared_blocks m1) p"
    unfolding l1 similar_positions [OF s]
    using ok positions_valid [of ?bs] by (simp add: similar_target_ok [OF s])
  have "resolved (label_map m1) (cleared_blocks m1) = resolved ?lbl ?bs"
    unfolding l1 c1 by (rule resolved_again [OF cleared_mapped_of])
  then have "m1 \<lparr> blocks := resolved (label_map m1) (cleared_blocks m1),
                  code_block_label_to_index := Map.empty \<rparr> = m1"
    by (simp add: m1)
  with MapBlocks_InrI [OF ne ok1] show ?thesis by simp
qed

subsection \<open>One branch instruction\<close>

lemma mapped_of_code:
  "block_row_type b = kCode \<Longrightarrow> mapped_of b = mapped_branch_instructions b"
  by (cases b) simp_all

lemma branch_target_branches_to: "branches_to L r \<Longrightarrow> branch_target lbl r = lbl L"
  by (cases r) (simp_all add: branches_to_def)

lemma branch_target_Some_branches_to:
  "branch_target lbl r = Some t \<Longrightarrow> \<exists>L. branches_to L r \<and> lbl L = Some t"
  by (cases r) (auto simp: branches_to_def split: if_splits)

lemma set_branch_target_branches_to:
  "branches_to L r \<Longrightarrow>
     first_operand_token (set_branch_target t r)
       = (first_operand_token r) \<lparr> start_register_index := t \<rparr>"
proof (cases r)
  case (CommentRow l c)
  then show "branches_to L r \<Longrightarrow> ?thesis" by (simp add: branches_to_def)
next
  case (InstructionRow l op ops pc bin en)
  assume "branches_to L r"
  with InstructionRow obtain t0 ts gs where "ops = (t0 # ts) # gs"
    by (cases ops; cases "hd ops") (auto simp: branches_to_def)
  with InstructionRow show ?thesis by (simp add: first_operand_token_def)
qed

lemma label_map_last:
  assumes ok: "positions_ok (blocks m)" and j: "j < length (blocks m)"
    and l: "block_label (blocks m ! j) = Some L"
    and last: "\<forall>k<length (blocks m). j < k \<longrightarrow> block_label (blocks m ! k) \<noteq> Some L"
  shows "label_map m L = Some (int j)"
proof -
  have "build_label_map (cleared_blocks m) Map.empty L = Some (position (cleared_blocks m ! j))"
  proof (rule build_label_map_last)
    show "j < length (cleared_blocks m)" using j by (simp add: cleared_length)
    show "block_label (cleared_blocks m ! j) = Some L"
      using j l by (simp add: cleared_nth clear_mapped_simps)
    show "\<forall>k<length (cleared_blocks m). j < k \<longrightarrow> block_label (cleared_blocks m ! k) \<noteq> Some L"
      using last by (simp add: cleared_length cleared_nth clear_mapped_simps)
  qed
  moreover from l have "block_row_type (blocks m ! j) = kCode" by (simp add: block_label_Some)
  with ok j have "position (blocks m ! j) = int j" by (simp add: positions_ok_def)
  ultimately show ?thesis using j by (simp add: label_map_def cleared_nth clear_mapped_simps)
qed

lemma label_map_None:
  assumes "\<forall>k<length (blocks m). block_label (blocks m ! k) \<noteq> Some L"
  shows "label_map m L = None"
proof -
  from assms have "\<forall>k<length (cleared_blocks m). block_label (cleared_blocks m ! k) \<noteq> Some L"
    by (simp add: cleared_length cleared_nth clear_mapped_simps)
  from build_label_map_absent [OF this, of Map.empty] show ?thesis by (simp add: label_map_def)
qed

lemma tgt_cleared:
  "b < length (blocks m) \<Longrightarrow>
     tgt lbl (cleared_blocks m) (b, r) = branch_target lbl (row_at m b r)"
  by (simp add: tgt_def row_at_def cleared_nth clear_mapped_simps)

lemma positions_cleared:
  "(b, r) \<in> set (positions (cleared_blocks m)) \<longleftrightarrow> is_row m b r"
  by (auto simp: positions_mem is_row_def cleared_length cleared_nth clear_mapped_simps)

lemma MapBlocks_blocks:
  assumes r: "MapBlocksToBranchInstructions m = Inr m'" and k: "k < length (blocks m)"
  shows "length (blocks m') = length (blocks m)"
    and "blocks m' ! k = resolved_block (label_map m) (cleared_blocks m) k"
proof -
  from k have ne: "blocks m \<noteq> []" by auto
  from MapBlocks_InrD(2) [OF ne r]
  have b: "blocks m' = resolved (label_map m) (cleared_blocks m)" by simp
  show "length (blocks m') = length (blocks m)"
    by (simp add: b length_resolved cleared_length)
  show "blocks m' ! k = resolved_block (label_map m) (cleared_blocks m) k"
    using k by (simp add: b resolved_nth cleared_length)
qed

lemma MapBlocks_type:
  assumes r: "MapBlocksToBranchInstructions m = Inr m'" and k: "k < length (blocks m)"
  shows "block_row_type (blocks m' ! k) = block_row_type (blocks m ! k)"
    and "position (blocks m' ! k) = position (blocks m ! k)"
proof -
  have "header (blocks m' ! k) = header (blocks m ! k)"
    using k by (simp add: MapBlocks_blocks(2) [OF r k] resolved_block_simps cleared_nth
        clear_mapped_simps)
  then show "block_row_type (blocks m' ! k) = block_row_type (blocks m ! k)"
    and "position (blocks m' ! k) = position (blocks m ! k)"
    by (cases "blocks m' ! k"; cases "blocks m ! k"; simp)+
qed

lemma MapBlocks_mapped:
  assumes r: "MapBlocksToBranchInstructions m = Inr m'" and k: "k < length (blocks m)"
    and c: "block_row_type (blocks m ! k) = kCode"
  shows "mapped_of (blocks m' ! k) =
     map word_pair (filter (\<lambda>p. branch_target (label_map m) (row_at m (fst p) (snd p)) = Some (int k))
                      (positions (cleared_blocks m)))"
proof -
  have f: "filter (\<lambda>p. tgt (label_map m) (cleared_blocks m) p = Some (int k))
              (positions (cleared_blocks m))
         = filter (\<lambda>p. branch_target (label_map m) (row_at m (fst p) (snd p)) = Some (int k))
              (positions (cleared_blocks m))"
  proof (rule filter_cong [OF refl])
    fix p assume a: "p \<in> set (positions (cleared_blocks m))"
    obtain b0 r0 where pp: "p = (b0, r0)" by (cases p)
    from a have "fst p < length (blocks m)"
      unfolding pp by (simp add: positions_cleared is_row_def)
    from tgt_cleared [OF this, of "label_map m" "snd p"]
    show "(tgt (label_map m) (cleared_blocks m) p = Some (int k))
        = (branch_target (label_map m) (row_at m (fst p) (snd p)) = Some (int k))"
      by simp
  qed
  show ?thesis
    using k c
    by (simp add: MapBlocks_blocks(2) [OF r k] resolved_block_simps cleared_nth
        clear_mapped_simps refs_def f)
qed

lemma MapBlocks_row:
  assumes r: "MapBlocksToBranchInstructions m = Inr m'" and p: "is_row m b i"
  shows "row_at m' b i = resolve_row (label_map m) (row_at m b i)"
    and "length (instruction_lines (blocks m' ! b)) = length (instruction_lines (blocks m ! b))"
proof -
  from p have b: "b < length (blocks m)" by (simp add: is_row_def)
  show "row_at m' b i = resolve_row (label_map m) (row_at m b i)"
    using p by (simp add: row_at_def MapBlocks_blocks(2) [OF r b] resolved_block_simps cleared_nth
        clear_mapped_simps is_row_def)
  show "length (instruction_lines (blocks m' ! b)) = length (instruction_lines (blocks m ! b))"
    using p by (simp add: MapBlocks_blocks(2) [OF r b] resolved_block_simps cleared_nth
        clear_mapped_simps is_row_def)
qed

lemma MapBlocks_total:
  assumes "positions_ok (blocks m)"
  shows "\<exists>m'. MapBlocksToBranchInstructions m = Inr m'"
proof (cases "blocks m = []")
  case True
  then show ?thesis by (simp add: MapBlocksToBranchInstructions_def)
next
  case False
  from MapBlocks_positions_ok [OF False assms] show ?thesis by blast
qed

text \<open>A branch to a label of the map is resolved.\<close>

lemma resolve_branch:
  assumes r: "MapBlocksToBranchInstructions m = Inr m'"
    and p: "is_row m b i" and br: "branches_to L (row_at m b i)"
    and l: "label_map m L = Some (int j)" and j: "j < length (blocks m)"
  shows "word_pair (b, i) \<in> set (mapped_of (blocks m' ! j))"
    and "row_at m' b i = set_branch_target (int j) (row_at m b i)"
proof -
  from branch_target_branches_to [OF br, of "label_map m"] l
  have t: "branch_target (label_map m) (row_at m b i) = Some (int j)" by simp
  from p have pos: "(b, i) \<in> set (positions (cleared_blocks m))"
    by (simp add: positions_cleared)
  from p have b: "b < length (blocks m)" by (simp add: is_row_def)
  from j have ne: "blocks m \<noteq> []" by auto
  from MapBlocks_InrD(1) [OF ne r] pos
  have "target_ok (label_map m) (cleared_blocks m) (b, i)" by blast
  with t b j have c: "block_row_type (blocks m ! j) = kCode"
    by (simp add: target_ok_def tgt_cleared cleared_nth clear_mapped_simps)
  from pos t have "(b, i) \<in> set (filter (\<lambda>p. branch_target (label_map m) (row_at m (fst p) (snd p))
      = Some (int j)) (positions (cleared_blocks m)))" by simp
  then show "word_pair (b, i) \<in> set (mapped_of (blocks m' ! j))"
    unfolding MapBlocks_mapped [OF r j c] set_map by (rule imageI)
  show "row_at m' b i = set_branch_target (int j) (row_at m b i)"
    by (simp add: MapBlocks_row(1) [OF r p] resolve_row_def t)
qed

text \<open>A block whose label is taken by a later block gets no back-reference.\<close>

lemma shadowed_block:
  assumes r: "MapBlocksToBranchInstructions m = Inr m'" and ok: "positions_ok (blocks m)"
    and i: "i < length (blocks m)" and li: "block_label (blocks m ! i) = Some L"
    and l: "label_map m L \<noteq> Some (int i)"
  shows "mapped_of (blocks m' ! i) = []"
proof -
  have "branch_target (label_map m) row \<noteq> Some (int i)" for row
  proof
    assume "branch_target (label_map m) row = Some (int i)"
    from branch_target_Some_branches_to [OF this]
    obtain L' where l': "label_map m L' = Some (int i)" by blast
    from label_map_Some [OF this] obtain k where k: "k < length (blocks m)"
      and lk: "block_label (blocks m ! k) = Some L'" and pk: "position (blocks m ! k) = int i"
      by blast
    from lk have "block_row_type (blocks m ! k) = kCode" by (simp add: block_label_Some)
    with ok k have "position (blocks m ! k) = int k" by (simp add: positions_ok_def)
    with pk have "k = i" by simp
    with lk li have "L' = L" by simp
    with l' l show False by simp
  qed
  moreover from li have "block_row_type (blocks m ! i) = kCode" by (simp add: block_label_Some)
  ultimately show ?thesis by (simp add: MapBlocks_mapped [OF r i])
qed

text \<open>A branch to a label that is not in the map is left alone.\<close>

lemma unresolved_branch:
  assumes r: "MapBlocksToBranchInstructions m = Inr m'"
    and p: "is_row m b i" and br: "branches_to L (row_at m b i)"
    and l: "label_map m L = None"
  shows "row_at m' b i = row_at m b i"
proof -
  from branch_target_branches_to [OF br, of "label_map m"] l
  have t: "branch_target (label_map m) (row_at m b i) = None" by simp
  show ?thesis by (simp add: MapBlocks_row(1) [OF r p] resolve_row_def t)
qed

lemma not_branch_row: "\<not> is_branch_row r \<Longrightarrow> branch_target lbl r = None"
  by (cases r) (auto simp: is_branch_row_def)

lemma set_instruction_line_fields:
  "header (set_instruction_line r row' b) = header b"
  "block_row_type (set_instruction_line r row' b) = block_row_type b"
  "position (set_instruction_line r row' b) = position b"
  "block_label (set_instruction_line r row' b) = block_label b"
  "instruction_lines (set_instruction_line r row' b) = (instruction_lines b)[r := row']"
  by (cases b; simp add: block_label_def)+

lemma replace_row_length: "length (blocks (replace_row m b r row')) = length (blocks m)"
  by (simp add: replace_row_def)

lemma replace_row_fields:
  assumes "k < length (blocks m)"
  shows "block_row_type (blocks (replace_row m b r row') ! k) = block_row_type (blocks m ! k)"
    and "position (blocks (replace_row m b r row') ! k) = position (blocks m ! k)"
    and "block_label (blocks (replace_row m b r row') ! k) = block_label (blocks m ! k)"
    and "length (instruction_lines (blocks (replace_row m b r row') ! k))
           = length (instruction_lines (blocks m ! k))"
  using assms
  by (simp_all add: replace_row_def nth_list_update_lt set_instruction_line_fields)

lemma replace_row_row_at:
  assumes "is_row m k i"
  shows "row_at (replace_row m b r row') k i = (if k = b \<and> i = r then row' else row_at m k i)"
  using assms
  by (auto simp: replace_row_def row_at_def is_row_def nth_list_update_lt
      set_instruction_line_fields)

lemma replace_row_is_row: "is_row (replace_row m b r row') k i = is_row m k i"
  by (auto simp: is_row_def replace_row_length replace_row_fields)

lemma replace_row_positions_ok:
  "positions_ok (blocks (replace_row m b r row')) = positions_ok (blocks m)"
  by (simp add: positions_ok_def replace_row_length replace_row_fields)

lemma positions_eq:
  assumes "length bs' = length bs"
    and "\<forall>k<length bs. block_row_type (bs' ! k) = block_row_type (bs ! k)
           \<and> length (instruction_lines (bs' ! k)) = length (instruction_lines (bs ! k))"
  shows "positions bs' = positions bs"
proof -
  have "block_positions bs' k = block_positions bs k" if "k < length bs" for k
  proof -
    from assms(2) that have t: "block_row_type (bs' ! k) = block_row_type (bs ! k)"
      and l: "length (instruction_lines (bs' ! k)) = length (instruction_lines (bs ! k))"
      by simp_all
    then show ?thesis
      by (cases "bs' ! k"; cases "bs ! k"; simp add: block_positions_def)
  qed
  then have "map (block_positions bs') [0..<length bs] = map (block_positions bs) [0..<length bs]"
    by (intro map_cong refl) simp
  then show ?thesis
    by (simp only: positions_def positions_from_def assms(1))
qed

lemma replace_row_positions:
  "positions (cleared_blocks (replace_row m b r row')) = positions (cleared_blocks m)"
  by (rule positions_eq)
    (simp_all add: cleared_length replace_row_length cleared_nth clear_mapped_simps
      replace_row_fields)

lemma replace_row_label_map: "label_map (replace_row m b r row') = label_map m"
proof -
  have "map header (cleared_blocks (replace_row m b r row')) = map header (cleared_blocks m)"
    by (rule nth_equalityI)
      (auto simp: cleared_length replace_row_length cleared_nth clear_mapped_simps
        replace_row_def nth_list_update_lt set_instruction_line_fields)
  from build_label_map_header [OF this] show ?thesis by (simp add: label_map_def)
qed

lemma mapped_of_comment: "block_row_type b \<noteq> kCode \<Longrightarrow> mapped_of b = []"
  by (cases b) simp_all

lemma branch_query_unresolved:
  assumes p: "is_row m b r" and pos: "position (blocks m ! b) = int b"
    and br: "branches_to L (row_at m b r)"
    and u: "start_register_index (first_operand_token (row_at m b r)) = - 1"
  shows "data_kBranchIndexRole m (createIndex (int r) c (Some b)) = Inr []"
proof -
  from p have b: "b < length (blocks m)" and r: "r < length (instruction_lines (blocks m ! b))"
    by (simp_all add: is_row_def)
  have par: "parent m (createIndex (int r) c' (Some b)) = Inr (createIndex (int b) 0 None)"
    if "0 \<le> c'" for c'
    using that b pos by (simp add: parent_def isValid_def createIndex_def)
  have v: "isValid (createIndex (int b) 0 None)" by (simp add: isValid_def createIndex_def)
  obtain l op ops pc bin en where row: "row_at m b r = InstructionRow l op ops pc bin en"
    and ops: "ops \<noteq> []" "hd ops \<noteq> []"
    using br by (cases "row_at m b r") (auto simp: branches_to_def)
  from u row have s: "start_register_index (hd (hd ops)) = - 1"
    by (simp add: first_operand_token_def)
  from row have row': "instruction_lines (blocks m ! b) ! r = InstructionRow l op ops pc bin en"
    by (simp add: row_at_def)
  consider "c = kOpCode" | "c = kOperands" | "c \<noteq> kOpCode" "c \<noteq> kOperands" by blast
  then show ?thesis
  proof cases
    case 1
    have "0 \<le> kOpCode" by (simp add: kOpCode_def)
    from par [OF this] v show ?thesis
      unfolding 1 by (simp add: data_kBranchIndexRole_def bind_result_def createIndex_fields)
  next
    case 2
    have k: "0 \<le> kOperands" "kOperands \<noteq> kOpCode" by (simp_all add: kOperands_def kOpCode_def)
    from par [OF k(1)] v b r ops s k(2) show ?thesis
      unfolding 2
      by (simp add: data_kBranchIndexRole_def bind_result_def vector_at_def row'
          createIndex_fields)
  next
    case 3
    then show ?thesis by (simp add: data_kBranchIndexRole_def createIndex_fields)
  qed
qed

lemma unresolved_mapped:
  assumes r: "MapBlocksToBranchInstructions m = Inr m'"
    and r0: "MapBlocksToBranchInstructions (replace_row m b i row') = Inr m0'"
    and p: "is_row m b i" and br: "branches_to L (row_at m b i)"
    and l: "label_map m L = None" and nb: "\<not> is_branch_row row'"
    and k: "k < length (blocks m)"
  shows "mapped_of (blocks m' ! k) = mapped_of (blocks m0' ! k)"
proof (cases "block_row_type (blocks m ! k) = kCode")
  case False
  let ?m0 = "replace_row m b i row'"
  from k have k0: "k < length (blocks ?m0)" by (simp add: replace_row_length)
  from False have "block_row_type (blocks m' ! k) \<noteq> kCode"
    by (simp add: MapBlocks_type(1) [OF r k])
  moreover from False have "block_row_type (blocks m0' ! k) \<noteq> kCode"
    by (simp add: MapBlocks_type(1) [OF r0 k0] replace_row_fields(1) [OF k])
  ultimately show ?thesis by (simp add: mapped_of_comment)
next
  case True
  let ?m0 = "replace_row m b i row'"
  from k have k0: "k < length (blocks ?m0)" by (simp add: replace_row_length)
  from True have c0: "block_row_type (blocks ?m0 ! k) = kCode"
    by (simp add: replace_row_fields(1) [OF k])
  have f: "filter (\<lambda>p. branch_target (label_map m) (row_at ?m0 (fst p) (snd p)) = Some (int k))
              (positions (cleared_blocks m))
         = filter (\<lambda>p. branch_target (label_map m) (row_at m (fst p) (snd p)) = Some (int k))
              (positions (cleared_blocks m))"
  proof (rule filter_cong [OF refl])
    fix q assume a: "q \<in> set (positions (cleared_blocks m))"
    obtain b0 i0 where q: "q = (b0, i0)" by (cases q)
    from a have row: "is_row m b0 i0" unfolding q by (simp add: positions_cleared)
    show "(branch_target (label_map m) (row_at ?m0 (fst q) (snd q)) = Some (int k))
        = (branch_target (label_map m) (row_at m (fst q) (snd q)) = Some (int k))"
    proof (cases "b0 = b \<and> i0 = i")
      case True
      with branch_target_branches_to [OF br, of "label_map m"] l not_branch_row [OF nb]
      show ?thesis
        unfolding q by (simp add: replace_row_row_at [OF p])
    next
      case False
      then show ?thesis
        unfolding q by (auto simp: replace_row_row_at [OF row])
    qed
  qed
  show ?thesis
    by (simp add: MapBlocks_mapped [OF r k True] MapBlocks_mapped [OF r0 k0 c0]
        replace_row_positions replace_row_label_map f)
qed

lemma replace_row_returns:
  assumes r: "MapBlocksToBranchInstructions m = Inr m'"
    and p: "is_row m b i" and nb: "\<not> is_branch_row row'"
  shows "\<exists>m0'. MapBlocksToBranchInstructions (replace_row m b i row') = Inr m0'"
proof -
  let ?m0 = "replace_row m b i row'"
  from p have ne: "blocks m \<noteq> []" by (auto simp: is_row_def)
  then have ne0: "blocks ?m0 \<noteq> []" using replace_row_length [of m b i row'] by auto
  from MapBlocks_InrD(1) [OF ne r]
  have ok: "\<forall>q\<in>set (positions (cleared_blocks m)). target_ok (label_map m) (cleared_blocks m) q" .
  have "target_ok (label_map ?m0) (cleared_blocks ?m0) q"
    if q: "q \<in> set (positions (cleared_blocks ?m0))" for q
  proof -
    obtain b0 i0 where qq: "q = (b0, i0)" by (cases q)
    from q have qm: "q \<in> set (positions (cleared_blocks m))"
      by (simp add: replace_row_positions)
    then have row: "is_row m b0 i0" unfolding qq by (simp add: positions_cleared)
    then have b0: "b0 < length (blocks m)" by (simp add: is_row_def)
    then have b0': "b0 < length (blocks ?m0)" by (simp add: replace_row_length)
    have t0: "tgt (label_map m) (cleared_blocks ?m0) (b0, i0)
                = branch_target (label_map m) (row_at ?m0 b0 i0)"
      using b0' by (rule tgt_cleared)
    have t: "tgt (label_map m) (cleared_blocks m) (b0, i0)
                = branch_target (label_map m) (row_at m b0 i0)"
      using b0 by (rule tgt_cleared)
    show ?thesis
    proof (cases "b0 = b \<and> i0 = i")
      case True
      with t0 have "tgt (label_map m) (cleared_blocks ?m0) (b0, i0) = None"
        by (simp add: replace_row_row_at [OF p] not_branch_row [OF nb])
      then show ?thesis
        unfolding qq by (simp add: target_ok_def replace_row_label_map)
    next
      case False
      then have same: "tgt (label_map m) (cleared_blocks ?m0) (b0, i0)
                = tgt (label_map m) (cleared_blocks m) (b0, i0)"
        by (auto simp: t0 t replace_row_row_at [OF row])
      from ok qm have o: "target_ok (label_map m) (cleared_blocks m) (b0, i0)"
        unfolding qq by blast
      show ?thesis
      proof (cases "tgt (label_map m) (cleared_blocks m) (b0, i0)")
        case None
        with same show ?thesis
          unfolding qq by (simp add: target_ok_def replace_row_label_map)
      next
        case (Some t)
        with o have tt: "0 \<le> t" "nat t < length (blocks m)"
          "block_row_type (blocks m ! nat t) = kCode"
          by (auto simp: target_ok_def cleared_length cleared_nth clear_mapped_simps)
        from tt(2) have "nat t < length (blocks ?m0)" by (simp add: replace_row_length)
        with tt Some same show ?thesis
          unfolding qq
          by (simp add: target_ok_def replace_row_label_map cleared_length cleared_nth
              clear_mapped_simps replace_row_fields(1) [OF tt(2)])
      qed
    qed
  qed
  then have "\<forall>q\<in>set (positions (cleared_blocks ?m0)).
      target_ok (label_map ?m0) (cleared_blocks ?m0) q" by blast
  from MapBlocks_InrI [OF ne0 this] show ?thesis by blast
qed

subsection \<open>The documents of the examples\<close>

lemma positions_ok_Cons:
  "positions_ok (b # bs) \<longleftrightarrow>
     (block_row_type b = kCode \<longrightarrow> position b = 0)
     \<and> (\<forall>k<length bs. block_row_type (bs ! k) = kCode \<longrightarrow> position (bs ! k) = int k + 1)"
  by (auto simp: positions_ok_def nth_Cons split: nat.splits)

lemma positions_ok_duplicate: "positions_ok (blocks duplicate_label_model)"
  by (simp add: positions_ok_def duplicate_label_model_def nth_Cons split: nat.splits)

lemma positions_ok_missing: "positions_ok (blocks missing_label_model)"
  by (simp add: positions_ok_def missing_label_model_def)

lemma two_block_resolution:
  "MapBlocksToBranchInstructions
     (m \<lparr> blocks :=
          [InstructionBlock 0 l0 [] (t0 \<lparr> token_text := ''label0'' \<rparr>) stale0,
           InstructionBlock 1 l1
             [InstructionRow l (op \<lparr> token_text := ''s_branch'' \<rparr>)
                ((tk \<lparr> token_text := ''label0'' \<rparr> # ts) # gs) pc bin en]
             (t1 \<lparr> token_text := ''label1'' \<rparr>) stale1] \<rparr>)
   = Inr (m \<lparr> blocks :=
          [InstructionBlock 0 l0 [] (t0 \<lparr> token_text := ''label0'' \<rparr>) [(1, 0)],
           InstructionBlock 1 l1
             [InstructionRow l (op \<lparr> token_text := ''s_branch'' \<rparr>)
                ((tk \<lparr> token_text := ''label0'', start_register_index := 0 \<rparr> # ts) # gs)
                pc bin en]
             (t1 \<lparr> token_text := ''label1'' \<rparr>) []],
               code_block_label_to_index := Map.empty \<rparr>)"
proof -
  have u: "[0..<2] = [0, Suc 0]" by (simp add: upt_rec)
  show ?thesis
    by (simp add: MapBlocksToBranchInstructions_def ClearBranchInstructionMapping_def Let_def
        u map_block_def map_instruction_def kUnconditionalBranchString_def vector_at_def
        bind_result_def)
qed

lemma two_block_model_eq:
  "two_block_model =
     IsaItemModel_init \<lparr> blocks :=
          [InstructionBlock 0 0 [] ((label_token ''label0'') \<lparr> token_text := ''label0'' \<rparr>) [],
           InstructionBlock 1 1
             [InstructionRow 2
                ((Clear \<lparr> is_selectable := True \<rparr>) \<lparr> token_text := ''s_branch'' \<rparr>)
                (((Clear \<lparr> type := kBranchLabelType \<rparr>) \<lparr> token_text := ''label0'' \<rparr> # []) # [])
                ''000000000000'' ''BFA0FFFF'' True]
             ((label_token ''label1'') \<lparr> token_text := ''label1'' \<rparr>) []] \<rparr>"
  by (simp add: two_block_model_def branch_label0_row_def label_token_def)

lemma two_block_resolved_eq:
  "two_block_resolved =
     IsaItemModel_init \<lparr> blocks :=
          [InstructionBlock 0 0 [] ((label_token ''label0'') \<lparr> token_text := ''label0'' \<rparr>)
             [(1, 0)],
           InstructionBlock 1 1
             [InstructionRow 2
                ((Clear \<lparr> is_selectable := True \<rparr>) \<lparr> token_text := ''s_branch'' \<rparr>)
                (((Clear \<lparr> type := kBranchLabelType \<rparr>)
                    \<lparr> token_text := ''label0'', start_register_index := 0 \<rparr> # []) # [])
                ''000000000000'' ''BFA0FFFF'' True]
             ((label_token ''label1'') \<lparr> token_text := ''label1'' \<rparr>) []],
               code_block_label_to_index := Map.empty \<rparr>"
  by (simp add: two_block_resolved_def label_token_def IsaItemModel_init_def)

lemma two_block_model_resolution:
  "MapBlocksToBranchInstructions two_block_model = Inr two_block_resolved"
  unfolding two_block_model_eq two_block_resolved_eq by (rule two_block_resolution)

subsection \<open>Branch op codes\<close>

lemma str_find_sublist: "str_find s d \<noteq> None \<longleftrightarrow> sublist d s"
proof (induction s)
  case Nil
  show ?case by simp
next
  case (Cons c cs)
  then show ?case by (simp add: sublist_Cons_right)
qed

lemma is_branch_op_code_sublist:
  "is_branch_op_code op_code \<longleftrightarrow>
     sublist kUnconditionalBranchString op_code \<or> sublist kConditionalBranchString op_code"
  by (simp only: is_branch_op_code_def str_find_sublist)

lemma classify_tokens_branch:
  "classify_tokens True toks =
     Inr (map (\<lambda>tok. Clear \<lparr> is_selectable := False, token_text := tok,
                              type := kBranchLabelType \<rparr>) toks)"
  by (induction toks) (simp_all add: classify_token_def bind_result_def)

lemma parse_operands_branch:
  "\<exists>groups. parse_operands True w operands st = Inr groups
      \<and> length groups = length operands
      \<and> (\<forall>i<length operands. \<exists>toks. Split (operands ! i) '' '' = Some toks
            \<and> map token_fields (groups ! i)
                = map (\<lambda>tok. (tok, kBranchLabelType, - 1, - 1, False)) toks)"
proof (induction operands arbitrary: st)
  case Nil
  show ?case by simp
next
  case (Cons operand operands)
  obtain toks where sp: "Split operand '' '' = Some toks" using Split_space by blast
  let ?cls = "map (\<lambda>tok. Clear \<lparr> is_selectable := False, token_text := tok,
                              type := kBranchLabelType \<rparr>) toks"
  obtain ts sx ex tw where h: "set_hit_boxes w ?cls st = (ts, sx, ex, tw)"
    by (cases "set_hit_boxes w ?cls st") auto
  have "map token_fields ts = map token_fields ?cls"
    using set_hit_boxes_fields [of w ?cls st] by (simp add: h)
  also have "\<dots> = map (\<lambda>tok. (tok, kBranchLabelType, - 1, - 1, False)) toks"
    by (simp add: token_fields_def Clear_def)
  finally have f: "map token_fields ts
      = map (\<lambda>tok. (tok, kBranchLabelType, - 1, - 1, False)) toks" .
  from Cons [of "(sx + tw + w * 2, ex + w * 2, tw)"] obtain groups where
    g: "parse_operands True w operands (sx + tw + w * 2, ex + w * 2, tw) = Inr groups"
    and len: "length groups = length operands"
    and each: "\<forall>i<length operands. \<exists>toks. Split (operands ! i) '' '' = Some toks
            \<and> map token_fields (groups ! i)
                = map (\<lambda>tok. (tok, kBranchLabelType, - 1, - 1, False)) toks"
    by blast
  have p: "parse_operands True w (operand # operands) st = Inr (ts # groups)"
    by (simp add: sp classify_tokens_branch h g bind_result_def)
  have "\<exists>toks. Split ((operand # operands) ! i) '' '' = Some toks
            \<and> map token_fields ((ts # groups) ! i)
                = map (\<lambda>tok. (tok, kBranchLabelType, - 1, - 1, False)) toks"
    if "i < length (operand # operands)" for i
  proof (cases i)
    case 0
    with sp f show ?thesis by simp
  next
    case (Suc k)
    with that each show ?thesis by simp
  qed
  with p len show ?case by simp
qed

lemma instruction_with_branches_to:
  "is_branch_op_code op_code \<Longrightarrow> instruction_with op_code L r \<Longrightarrow> branches_to L r"
  by (cases r) (simp_all add: instruction_with_def branches_to_def)

lemma positions_ok_substring: "positions_ok (blocks substring_branch_model)"
  by (simp add: positions_ok_def substring_branch_model_def nth_Cons split: nat.splits)

subsection \<open>Single target, single branch\<close>

text \<open>
  C1. Take the document of two code blocks, at positions 0 and 1: the first is labelled
  \<^verbatim>\<open>label0\<close> and has no row, the second is labelled \<^verbatim>\<open>label1\<close> and has one row, an
  instruction with the op code \<^verbatim>\<open>s_branch\<close> whose first operand token has the text
  \<^verbatim>\<open>label0\<close>. Whatever the other fields of the model, the blocks, the rows and the
  tokens are, and whatever back-references the blocks hold before, the pass returns,
  the back-references of block 0 are \<open>[(1, 0)]\<close> and \<^verbatim>\<open>start_register_index\<close> of the first
  operand token of the instruction is 0. Nothing else changes, but that block 1 has no
  back-reference and that the label map is cleared.
\<close>

theorem single_target_single_branch:
  "\<exists>m'. MapBlocksToBranchInstructions
       (m \<lparr> blocks :=
            [InstructionBlock 0 l0 [] (t0 \<lparr> token_text := ''label0'' \<rparr>) stale0,
             InstructionBlock 1 l1
               [InstructionRow l (op \<lparr> token_text := ''s_branch'' \<rparr>)
                  ((tk \<lparr> token_text := ''label0'' \<rparr> # ts) # gs) pc bin en]
               (t1 \<lparr> token_text := ''label1'' \<rparr>) stale1] \<rparr>) = Inr m'
     \<and> mapped_branch_instructions (blocks m' ! 0) = [(1, 0)]
     \<and> start_register_index (first_operand_token (row_at m' 1 0)) = 0
     \<and> m' = m \<lparr> blocks :=
            [InstructionBlock 0 l0 [] (t0 \<lparr> token_text := ''label0'' \<rparr>) [(1, 0)],
             InstructionBlock 1 l1
               [InstructionRow l (op \<lparr> token_text := ''s_branch'' \<rparr>)
                  ((tk \<lparr> token_text := ''label0'', start_register_index := 0 \<rparr> # ts) # gs)
                  pc bin en]
               (t1 \<lparr> token_text := ''label1'' \<rparr>) []],
                 code_block_label_to_index := Map.empty \<rparr>"
  by (simp add: two_block_resolution first_operand_token_def row_at_def)

theorem single_target_single_branch_witness:
  "\<exists>m'. MapBlocksToBranchInstructions two_block_model = Inr m'
     \<and> mapped_branch_instructions (blocks m' ! 0) = [(1, 0)]
     \<and> start_register_index (first_operand_token (row_at m' 1 0)) = 0"
proof -
  from single_target_single_branch [where m = IsaItemModel_init and ?l0.0 = 0
      and ?t0.0 = "label_token ''label0''" and ?stale0.0 = "[]" and ?l1.0 = 1 and l = 2
      and op = "Clear \<lparr> is_selectable := True \<rparr>"
      and tk = "Clear \<lparr> type := kBranchLabelType \<rparr>" and ts = "[]" and gs = "[]"
      and pc = "''000000000000''" and bin = "''BFA0FFFF''" and en = True
      and ?t1.0 = "label_token ''label1''" and ?stale1.0 = "[]"]
  obtain m' where "MapBlocksToBranchInstructions two_block_model = Inr m'"
    "mapped_branch_instructions (blocks m' ! 0) = [(1, 0)]"
    "start_register_index (first_operand_token (row_at m' 1 0)) = 0"
    unfolding two_block_model_eq [symmetric] by blast
  then show ?thesis by blast
qed

subsection \<open>Idempotence\<close>

text \<open>
  C3. When \<^verbatim>\<open>MapBlocksToBranchInstructions\<close> returns, running it again on the result
  returns the same model: the same back-references of every block, with no entry added,
  and the same target in every branch operand token. It returns for every document whose
  code blocks have their index as \<^verbatim>\<open>position\<close>, which is the invariant of the data model.
\<close>

theorem resolution_idempotent:
  "(MapBlocksToBranchInstructions m = Inr m1 \<longrightarrow> MapBlocksToBranchInstructions m1 = Inr m1)
   \<and> (positions_ok (blocks m) \<longrightarrow> (\<exists>m'. MapBlocksToBranchInstructions m = Inr m'))"
proof -
  have "\<exists>m'. MapBlocksToBranchInstructions m = Inr m'" if "positions_ok (blocks m)"
  proof (cases "blocks m = []")
    case True
    then show ?thesis by (simp add: MapBlocksToBranchInstructions_def)
  next
    case False
    from MapBlocks_positions_ok [OF False that] show ?thesis by blast
  qed
  with MapBlocks_again show ?thesis by blast
qed

theorem resolution_idempotent_witness:
  "MapBlocksToBranchInstructions two_block_model = Inr two_block_resolved
   \<and> MapBlocksToBranchInstructions two_block_resolved = Inr two_block_resolved
   \<and> positions_ok (blocks two_block_model)
   \<and> mapped_branch_instructions (blocks two_block_resolved ! 0) = [(1, 0)]"
proof -
  have r: "MapBlocksToBranchInstructions two_block_model = Inr two_block_resolved"
    by (rule two_block_model_resolution)
  from resolution_idempotent [of two_block_model two_block_resolved] r
  have "MapBlocksToBranchInstructions two_block_resolved = Inr two_block_resolved" by blast
  moreover have "positions_ok (blocks two_block_model)"
    by (simp add: positions_ok_def two_block_model_def nth_Cons split: nat.splits)
  moreover have "mapped_branch_instructions (blocks two_block_resolved ! 0) = [(1, 0)]"
    by (simp add: two_block_resolved_def)
  ultimately show ?thesis using r by blast
qed

subsection \<open>Duplicate labels\<close>

text \<open>
  C7, as amended. In a document whose code blocks have their index as \<^verbatim>\<open>position\<close>, let
  the code blocks \<open>i < j\<close> have the same label \<open>L\<close>, \<open>j\<close> being the last block with that
  label (as it is when they are the only two). The pass returns. Every branch instruction
  whose first operand token has the text \<open>L\<close> is resolved to block \<open>j\<close>: its pair
  \<open>(block, row)\<close>, stored as two \<^verbatim>\<open>uint32_t\<close>, is in the back-references of block \<open>j\<close>, and
  the target index of its token is the position of \<open>j\<close>. Block \<open>i\<close> gets no back-reference
  at all.
\<close>

theorem duplicate_labels_later_wins:
  assumes ok: "positions_ok (blocks m)"
    and ij: "i < j" and j: "j < length (blocks m)"
    and li: "block_label (blocks m ! i) = Some L"
    and lj: "block_label (blocks m ! j) = Some L"
    and last: "\<forall>k<length (blocks m). j < k \<longrightarrow> block_label (blocks m ! k) \<noteq> Some L"
  shows "\<exists>m'. MapBlocksToBranchInstructions m = Inr m'
      \<and> mapped_branch_instructions (blocks m' ! i) = []
      \<and> (\<forall>b r. is_row m b r \<and> branches_to L (row_at m b r) \<longrightarrow>
            word_pair (b, r) \<in> set (mapped_branch_instructions (blocks m' ! j))
            \<and> row_at m' b r = set_branch_target (position (blocks m ! j)) (row_at m b r)
            \<and> start_register_index (first_operand_token (row_at m' b r))
                = position (blocks m ! j))"
proof -
  from MapBlocks_total [OF ok] obtain m' where r: "MapBlocksToBranchInstructions m = Inr m'"
    by blast
  from ij j have i: "i < length (blocks m)" by simp
  have l: "label_map m L = Some (int j)" using ok j lj last by (rule label_map_last)
  from lj have cj: "block_row_type (blocks m ! j) = kCode" by (simp add: block_label_Some)
  from li have ci: "block_row_type (blocks m ! i) = kCode" by (simp add: block_label_Some)
  from ok j cj have pj: "position (blocks m ! j) = int j" by (simp add: positions_ok_def)
  from ij l have "label_map m L \<noteq> Some (int i)" by simp
  from shadowed_block [OF r ok i li this] have "mapped_of (blocks m' ! i) = []" .
  moreover have "block_row_type (blocks m' ! i) = kCode"
    by (simp add: MapBlocks_type(1) [OF r i] ci)
  ultimately have none: "mapped_branch_instructions (blocks m' ! i) = []"
    by (simp add: mapped_of_code)
  have cj': "block_row_type (blocks m' ! j) = kCode"
    by (simp add: MapBlocks_type(1) [OF r j] cj)
  have res: "word_pair (b, r) \<in> set (mapped_branch_instructions (blocks m' ! j))
            \<and> row_at m' b r = set_branch_target (position (blocks m ! j)) (row_at m b r)
            \<and> start_register_index (first_operand_token (row_at m' b r))
                = position (blocks m ! j)"
    if p: "is_row m b r" and br: "branches_to L (row_at m b r)" for b r
  proof -
    from resolve_branch [OF r p br l j]
    have a: "word_pair (b, r) \<in> set (mapped_of (blocks m' ! j))"
      and row: "row_at m' b r = set_branch_target (int j) (row_at m b r)" .
    from a cj' have "word_pair (b, r) \<in> set (mapped_branch_instructions (blocks m' ! j))"
      by (simp add: mapped_of_code)
    moreover have "start_register_index (first_operand_token (row_at m' b r)) = int j"
      by (simp add: row set_branch_target_branches_to [OF br])
    ultimately show ?thesis by (simp add: row pj)
  qed
  from r none res show ?thesis by blast
qed

theorem duplicate_labels_later_wins_witness:
  "\<exists>m'. MapBlocksToBranchInstructions duplicate_label_model = Inr m'
      \<and> mapped_branch_instructions (blocks m' ! 0) = []
      \<and> (2, 0) \<in> set (mapped_branch_instructions (blocks m' ! 1))
      \<and> start_register_index (first_operand_token (row_at m' 2 0)) = 1"
proof -
  have j: "1 < length (blocks duplicate_label_model)"
    by (simp add: duplicate_label_model_def)
  have l0: "block_label (blocks duplicate_label_model ! 0) = Some ''loop''"
    by (simp add: duplicate_label_model_def block_label_def label_token_def)
  have l1: "block_label (blocks duplicate_label_model ! 1) = Some ''loop''"
    by (simp add: duplicate_label_model_def block_label_def label_token_def)
  have last: "\<forall>k<length (blocks duplicate_label_model).
      1 < k \<longrightarrow> block_label (blocks duplicate_label_model ! k) \<noteq> Some ''loop''"
    by (simp add: duplicate_label_model_def block_label_def label_token_def nth_Cons
        split: nat.splits)
  have p: "is_row duplicate_label_model 2 0"
    by (simp add: is_row_def duplicate_label_model_def)
  have br: "branches_to ''loop'' (row_at duplicate_label_model 2 0)"
    by (simp add: branches_to_def row_at_def duplicate_label_model_def branch_row_def
        is_branch_op_code_def kUnconditionalBranchString_def)
  have pos: "position (blocks duplicate_label_model ! Suc 0) = 1"
    by (simp add: duplicate_label_model_def)
  have w: "word_pair (2, 0) = (2, 0)" by (simp add: word_pair_def)
  from duplicate_labels_later_wins [OF positions_ok_duplicate _ j l0 l1 last]
  obtain m' where m': "MapBlocksToBranchInstructions duplicate_label_model = Inr m'"
    "mapped_branch_instructions (blocks m' ! 0) = []"
    "\<forall>b r. is_row duplicate_label_model b r
          \<and> branches_to ''loop'' (row_at duplicate_label_model b r) \<longrightarrow>
            word_pair (b, r) \<in> set (mapped_branch_instructions (blocks m' ! 1))
            \<and> row_at m' b r = set_branch_target (position (blocks duplicate_label_model ! 1))
                 (row_at duplicate_label_model b r)
            \<and> start_register_index (first_operand_token (row_at m' b r))
                = position (blocks duplicate_label_model ! 1)"
    by auto
  from m'(3) p br have "word_pair (2, 0) \<in> set (mapped_branch_instructions (blocks m' ! 1))"
    "start_register_index (first_operand_token (row_at m' 2 0))
       = position (blocks duplicate_label_model ! 1)"
    by blast+
  with m'(1,2) show ?thesis by (simp add: w pos)
qed

text \<open>Three blocks with the label \<^verbatim>\<open>loop\<close>, at 0, 1 and 2, and a branch to \<^verbatim>\<open>loop\<close> in
  block 3: of the two blocks 0 and 1 the later gets no back-reference, block 2 gets it.\<close>

theorem duplicate_labels_later_wins_counterexample:
  "map_sum id (map mapped_of \<circ> blocks) (MapBlocksToBranchInstructions triple_label_model)
     = Inr [[], [], [(3, 0)], []]"
  by code_simp

subsection \<open>Unresolved branches\<close>

text \<open>
  C8. Take a branch instruction, at row \<open>r\<close> of block \<open>b\<close>, whose first operand token has
  a text \<open>L\<close> that is the label of no code block. The pass returns on every document
  whose code blocks have their index as \<^verbatim>\<open>position\<close>, which is the invariant of the data
  model. Whenever it returns:

  \<^item> it returns as well on the document in which another row that is no branch (a
    comment, say) stands in the place of the instruction, and every block has the same
    back-references in both: the branch adds no entry anywhere;
  \<^item> the row is left as it was, so the target index of its token is still \<open>-1\<close> when
    it was;
  \<^item> then, block \<open>b\<close> having its index as \<^verbatim>\<open>position\<close>, the query
    \<^verbatim>\<open>data(index, kBranchIndexRole)\<close> for the instruction returns the empty list, in
    every column.
\<close>

theorem unresolved_branch_frame:
  assumes p: "is_row m b r" and br: "branches_to L (row_at m b r)"
    and no: "\<forall>k<length (blocks m). block_label (blocks m ! k) \<noteq> Some L"
    and nb: "\<not> is_branch_row row'"
  shows "(positions_ok (blocks m) \<longrightarrow> (\<exists>m'. MapBlocksToBranchInstructions m = Inr m'))
      \<and> (\<forall>m'. MapBlocksToBranchInstructions m = Inr m' \<longrightarrow>
           (\<exists>m0'. MapBlocksToBranchInstructions (replace_row m b r row') = Inr m0'
               \<and> length (blocks m') = length (blocks m)
               \<and> length (blocks m0') = length (blocks m)
               \<and> (\<forall>k<length (blocks m).
                     mapped_of (blocks m' ! k) = mapped_of (blocks m0' ! k)))
           \<and> row_at m' b r = row_at m b r
           \<and> (start_register_index (first_operand_token (row_at m b r)) = - 1
              \<and> position (blocks m ! b) = int b \<longrightarrow>
                start_register_index (first_operand_token (row_at m' b r)) = - 1
                \<and> (\<forall>c. data_kBranchIndexRole m' (createIndex (int r) c (Some b)) = Inr [])))"
proof -
  let ?m0 = "replace_row m b r row'"
  from p have b: "b < length (blocks m)" and c: "block_row_type (blocks m ! b) = kCode"
    and i: "r < length (instruction_lines (blocks m ! b))" by (simp_all add: is_row_def)
  from b have b0: "b < length (blocks ?m0)" by (simp add: replace_row_length)
  have l: "label_map m L = None" using no by (rule label_map_None)
  have total: "positions_ok (blocks m) \<longrightarrow> (\<exists>m'. MapBlocksToBranchInstructions m = Inr m')"
    by (simp add: MapBlocks_total)
  have frame: "(\<exists>m0'. MapBlocksToBranchInstructions ?m0 = Inr m0'
               \<and> length (blocks m') = length (blocks m)
               \<and> length (blocks m0') = length (blocks m)
               \<and> (\<forall>k<length (blocks m).
                     mapped_of (blocks m' ! k) = mapped_of (blocks m0' ! k)))
           \<and> row_at m' b r = row_at m b r
           \<and> (start_register_index (first_operand_token (row_at m b r)) = - 1
              \<and> position (blocks m ! b) = int b \<longrightarrow>
                start_register_index (first_operand_token (row_at m' b r)) = - 1
                \<and> (\<forall>c. data_kBranchIndexRole m' (createIndex (int r) c (Some b)) = Inr []))"
    if r: "MapBlocksToBranchInstructions m = Inr m'" for m'
  proof -
    from replace_row_returns [OF r p nb] obtain m0' where
      r0: "MapBlocksToBranchInstructions ?m0 = Inr m0'" by blast
    have len: "length (blocks m') = length (blocks m)" by (rule MapBlocks_blocks(1) [OF r b])
    have len0: "length (blocks m0') = length (blocks m)"
      using MapBlocks_blocks(1) [OF r0 b0] by (simp add: replace_row_length)
    have same: "\<forall>k<length (blocks m). mapped_of (blocks m' ! k) = mapped_of (blocks m0' ! k)"
      using unresolved_mapped [OF r r0 p br l nb] by blast
    have row: "row_at m' b r = row_at m b r" by (rule unresolved_branch [OF r p br l])
    have q: "data_kBranchIndexRole m' (createIndex (int r) c (Some b)) = Inr []"
      if u: "start_register_index (first_operand_token (row_at m b r)) = - 1"
        and pos: "position (blocks m ! b) = int b" for c
    proof (rule branch_query_unresolved)
      show "is_row m' b r"
        using b c i
        by (simp add: is_row_def len MapBlocks_type(1) [OF r b] MapBlocks_row(2) [OF r p])
      show "position (blocks m' ! b) = int b"
        using pos by (simp add: MapBlocks_type(2) [OF r b])
      show "branches_to L (row_at m' b r)" using br by (simp add: row)
      show "start_register_index (first_operand_token (row_at m' b r)) = - 1"
        using u by (simp add: row)
    qed
    from r0 len len0 same row q show ?thesis by (simp add: row)
  qed
  from total frame show ?thesis by blast
qed

theorem unresolved_branch_frame_witness:
  "\<exists>m' m0'. MapBlocksToBranchInstructions missing_label_model = Inr m'
      \<and> MapBlocksToBranchInstructions
           (replace_row missing_label_model 0 0 (CommentRow 2 ''; no branch'')) = Inr m0'
      \<and> mapped_of (blocks m' ! 0) = mapped_of (blocks m0' ! 0)
      \<and> row_at m' 0 0 = branch_row ''s_branch'' ''label_missing''
      \<and> start_register_index (first_operand_token (row_at m' 0 0)) = - 1
      \<and> data_kBranchIndexRole m' (createIndex 0 kOperands (Some 0)) = Inr []"
proof -
  have p: "is_row missing_label_model 0 0"
    by (simp add: is_row_def missing_label_model_def)
  have row: "row_at missing_label_model 0 0 = branch_row ''s_branch'' ''label_missing''"
    by (simp add: row_at_def missing_label_model_def)
  have br: "branches_to ''label_missing'' (row_at missing_label_model 0 0)"
    by (simp add: row branches_to_def branch_row_def is_branch_op_code_def
        kUnconditionalBranchString_def)
  have no: "\<forall>k<length (blocks missing_label_model).
      block_label (blocks missing_label_model ! k) \<noteq> Some ''label_missing''"
    by (simp add: missing_label_model_def block_label_def label_token_def)
  have nb: "\<not> is_branch_row (CommentRow 2 ''; no branch'')"
    by (simp add: is_branch_row_def)
  have u: "start_register_index (first_operand_token (row_at missing_label_model 0 0)) = - 1"
    by (simp add: row first_operand_token_def branch_row_def Clear_def)
  have len: "length (blocks missing_label_model) = 1" by (simp add: missing_label_model_def)
  have pos: "position (blocks missing_label_model ! 0) = int 0"
    by (simp add: missing_label_model_def)
  note t = unresolved_branch_frame [OF p br no nb]
  from t [THEN conjunct1] positions_ok_missing obtain m' where
    r: "MapBlocksToBranchInstructions missing_label_model = Inr m'" by blast
  from t [THEN conjunct2, rule_format, OF r] u pos len obtain m0' where
    "MapBlocksToBranchInstructions
       (replace_row missing_label_model 0 0 (CommentRow 2 ''; no branch'')) = Inr m0'"
    "mapped_of (blocks m' ! 0) = mapped_of (blocks m0' ! 0)"
    "row_at m' 0 0 = row_at missing_label_model 0 0"
    "start_register_index (first_operand_token (row_at m' 0 0)) = - 1"
    "data_kBranchIndexRole m' (createIndex (int 0) kOperands (Some 0)) = Inr []"
    by auto
  with r show ?thesis by (auto simp: row)
qed

subsection \<open>Branch detection by substring\<close>

text \<open>
  C10. An op code that contains \<^verbatim>\<open>s_branch\<close> or \<^verbatim>\<open>s_cbranch_\<close> anywhere, not only at its
  start, is a branch for both functions; an op code is one exactly when it contains one
  of the two strings.

  \<^item> \<^verbatim>\<open>ParseSelectableTokens\<close> returns, whatever the operands are, and gives every word
    of every operand a token of type \<^verbatim>\<open>kBranchLabelType\<close> that is not selectable and has
    no register index: no word is matched against the register and constant patterns.
  \<^item> In a document whose code blocks have their index as \<^verbatim>\<open>position\<close>, the pass looks
    up the first operand token of every instruction with that op code: when its text is
    the label of a code block, \<open>j\<close> being the last block with that label, the pair
    \<open>(block, row)\<close> of the instruction is among the back-references of block \<open>j\<close> and the
    target index of the token is \<open>j\<close>.
\<close>

theorem branch_detection_by_substring:
  assumes c: "sublist kUnconditionalBranchString op_code
            \<or> sublist kConditionalBranchString op_code"
  shows "is_branch_op_code op_code
     \<and> (\<forall>s. is_branch_op_code s \<longleftrightarrow>
              sublist kUnconditionalBranchString s \<or> sublist kConditionalBranchString s)
     \<and> (\<exists>groups.
           ParseSelectableTokens op_code op_token operands selectable_tokens w
             = Inr (parsed_op_code_token op_code op_token w, selectable_tokens @ groups)
           \<and> length groups = length operands
           \<and> (\<forall>i<length operands. \<exists>toks. Split (operands ! i) '' '' = Some toks
                 \<and> map token_fields (groups ! i)
                     = map (\<lambda>tok. (tok, kBranchLabelType, - 1, - 1, False)) toks))
     \<and> (\<forall>m b r L j.
           positions_ok (blocks m) \<and> is_row m b r
           \<and> instruction_with op_code L (row_at m b r)
           \<and> j < length (blocks m) \<and> block_label (blocks m ! j) = Some L
           \<and> (\<forall>k<length (blocks m). j < k \<longrightarrow> block_label (blocks m ! k) \<noteq> Some L)
           \<longrightarrow> (\<exists>m'. MapBlocksToBranchInstructions m = Inr m'
                  \<and> word_pair (b, r) \<in> set (mapped_branch_instructions (blocks m' ! j))
                  \<and> row_at m' b r = set_branch_target (int j) (row_at m b r)
                  \<and> start_register_index (first_operand_token (row_at m' b r)) = int j))"
proof -
  from c have br: "is_branch_op_code op_code" by (simp add: is_branch_op_code_sublist)
  have all: "\<forall>s. is_branch_op_code s \<longleftrightarrow>
              sublist kUnconditionalBranchString s \<or> sublist kConditionalBranchString s"
    by (simp add: is_branch_op_code_sublist)
  from br have f: "str_find op_code kUnconditionalBranchString \<noteq> None
      \<or> str_find op_code kConditionalBranchString \<noteq> None"
    by (simp add: is_branch_op_code_def)
  from parse_operands_branch [of w operands "(0, 0, w * real (length op_code))"]
  obtain groups where
    g: "parse_operands True w operands (0, 0, w * real (length op_code)) = Inr groups"
    and len: "length groups = length operands"
    and each: "\<forall>i<length operands. \<exists>toks. Split (operands ! i) '' '' = Some toks
            \<and> map token_fields (groups ! i)
                = map (\<lambda>tok. (tok, kBranchLabelType, - 1, - 1, False)) toks"
    by blast
  have p: "ParseSelectableTokens op_code op_token operands selectable_tokens w
             = Inr (parsed_op_code_token op_code op_token w, selectable_tokens @ groups)"
    using f g
    by (simp add: ParseSelectableTokens_def parsed_op_code_token_def Let_def bind_result_def)
  have parse: "\<exists>groups.
           ParseSelectableTokens op_code op_token operands selectable_tokens w
             = Inr (parsed_op_code_token op_code op_token w, selectable_tokens @ groups)
           \<and> length groups = length operands
           \<and> (\<forall>i<length operands. \<exists>toks. Split (operands ! i) '' '' = Some toks
                 \<and> map token_fields (groups ! i)
                     = map (\<lambda>tok. (tok, kBranchLabelType, - 1, - 1, False)) toks)"
    using p len each by blast
  have res: "\<exists>m'. MapBlocksToBranchInstructions m = Inr m'
                  \<and> word_pair (b, r) \<in> set (mapped_branch_instructions (blocks m' ! j))
                  \<and> row_at m' b r = set_branch_target (int j) (row_at m b r)
                  \<and> start_register_index (first_operand_token (row_at m' b r)) = int j"
    if ok: "positions_ok (blocks m)" and row: "is_row m b r"
      and iw: "instruction_with op_code L (row_at m b r)"
      and j: "j < length (blocks m)" and lj: "block_label (blocks m ! j) = Some L"
      and last: "\<forall>k<length (blocks m). j < k \<longrightarrow> block_label (blocks m ! k) \<noteq> Some L"
    for m b r L j
  proof -
    from MapBlocks_total [OF ok] obtain m' where
      r: "MapBlocksToBranchInstructions m = Inr m'" by blast
    have bt: "branches_to L (row_at m b r)" using br iw by (rule instruction_with_branches_to)
    have l: "label_map m L = Some (int j)" using ok j lj last by (rule label_map_last)
    from lj have cj: "block_row_type (blocks m ! j) = kCode" by (simp add: block_label_Some)
    have cj': "block_row_type (blocks m' ! j) = kCode"
      by (simp add: MapBlocks_type(1) [OF r j] cj)
    from resolve_branch [OF r row bt l j]
    have a: "word_pair (b, r) \<in> set (mapped_of (blocks m' ! j))"
      and rw: "row_at m' b r = set_branch_target (int j) (row_at m b r)" .
    from a cj' have "word_pair (b, r) \<in> set (mapped_branch_instructions (blocks m' ! j))"
      by (simp add: mapped_of_code)
    moreover have "start_register_index (first_operand_token (row_at m' b r)) = int j"
      by (simp add: rw set_branch_target_branches_to [OF bt])
    ultimately show ?thesis using r rw by blast
  qed
  from br all parse res show ?thesis by blast
qed

theorem branch_detection_by_substring_witness:
  "is_branch_op_code ''xs_branchy''
   \<and> (\<exists>tokens. ParseSelectableTokens ''xs_branchy'' Clear [''s5 0x10''] [] 8
                  = Inr (parsed_op_code_token ''xs_branchy'' Clear 8, [tokens])
          \<and> map token_fields tokens
              = [(''s5'', kBranchLabelType, - 1, - 1, False),
                 (''0x10'', kBranchLabelType, - 1, - 1, False)])
   \<and> (\<exists>m'. MapBlocksToBranchInstructions substring_branch_model = Inr m'
          \<and> (1, 0) \<in> set (mapped_branch_instructions (blocks m' ! 0))
          \<and> start_register_index (first_operand_token (row_at m' 1 0)) = 0)"
proof -
  have "''xs_branchy'' = ''x'' @ kUnconditionalBranchString @ ''y''"
    by (simp add: kUnconditionalBranchString_def)
  then have "sublist kUnconditionalBranchString ''xs_branchy''"
    by (simp only: sublist_appendI)
  then have c: "sublist kUnconditionalBranchString ''xs_branchy''
            \<or> sublist kConditionalBranchString ''xs_branchy''" ..
  note t = branch_detection_by_substring [OF c, of Clear "[''s5 0x10'']" "[]" 8]
  from t have a: "is_branch_op_code ''xs_branchy''" by (rule conjunct1)
  from t [THEN conjunct2, THEN conjunct2, THEN conjunct1] obtain groups where
    p: "ParseSelectableTokens ''xs_branchy'' Clear [''s5 0x10''] [] 8
          = Inr (parsed_op_code_token ''xs_branchy'' Clear 8, [] @ groups)"
    and len: "length groups = length [''s5 0x10'']"
    and each: "\<forall>i<length [''s5 0x10'']. \<exists>toks. Split ([''s5 0x10''] ! i) '' '' = Some toks
                 \<and> map token_fields (groups ! i)
                     = map (\<lambda>tok. (tok, kBranchLabelType, - 1, - 1, False)) toks"
    by blast
  from len obtain tokens where g: "groups = [tokens]"
    by (cases groups) auto
  have sp: "Split ''s5 0x10'' '' '' = Some [''s5'', ''0x10'']" by code_simp
  from each have "\<exists>toks. Split ([''s5 0x10''] ! 0) '' '' = Some toks
                 \<and> map token_fields (groups ! 0)
                     = map (\<lambda>tok. (tok, kBranchLabelType, - 1, - 1, False)) toks"
    by simp
  with sp g have f: "map token_fields tokens
              = [(''s5'', kBranchLabelType, - 1, - 1, False),
                 (''0x10'', kBranchLabelType, - 1, - 1, False)]"
    by auto
  from p g f have b: "\<exists>tokens. ParseSelectableTokens ''xs_branchy'' Clear [''s5 0x10''] [] 8
                  = Inr (parsed_op_code_token ''xs_branchy'' Clear 8, [tokens])
          \<and> map token_fields tokens
              = [(''s5'', kBranchLabelType, - 1, - 1, False),
                 (''0x10'', kBranchLabelType, - 1, - 1, False)]"
    by auto
  have row: "is_row substring_branch_model 1 0"
    by (simp add: is_row_def substring_branch_model_def)
  have iw: "instruction_with ''xs_branchy'' ''label0'' (row_at substring_branch_model 1 0)"
    by (simp add: instruction_with_def row_at_def substring_branch_model_def branch_row_def)
  have j: "0 < length (blocks substring_branch_model)"
    by (simp add: substring_branch_model_def)
  have lj: "block_label (blocks substring_branch_model ! 0) = Some ''label0''"
    by (simp add: substring_branch_model_def block_label_def label_token_def)
  have last: "\<forall>k<length (blocks substring_branch_model).
      0 < k \<longrightarrow> block_label (blocks substring_branch_model ! k) \<noteq> Some ''label0''"
    by (simp add: substring_branch_model_def block_label_def label_token_def nth_Cons
        split: nat.splits)
  have w: "word_pair (1, 0) = (1, 0)" by (simp add: word_pair_def)
  from t [THEN conjunct2, THEN conjunct2, THEN conjunct2, rule_format,
      of substring_branch_model 1 0 "''label0''" 0]
    positions_ok_substring row iw j lj last
  have "\<exists>m'. MapBlocksToBranchInstructions substring_branch_model = Inr m'
          \<and> word_pair (1, 0) \<in> set (mapped_branch_instructions (blocks m' ! 0))
          \<and> row_at m' 1 0 = set_branch_target (int 0) (row_at substring_branch_model 1 0)
          \<and> start_register_index (first_operand_token (row_at m' 1 0)) = int 0"
    by blast
  then obtain m' where r: "MapBlocksToBranchInstructions substring_branch_model = Inr m'"
    and m1: "word_pair (1, 0) \<in> set (mapped_branch_instructions (blocks m' ! 0))"
    and m2: "start_register_index (first_operand_token (row_at m' 1 0)) = int 0"
    by blast
  from m1 have m1': "(1, 0) \<in> set (mapped_branch_instructions (blocks m' ! 0))"
    unfolding w .
  from m2 have m2': "start_register_index (first_operand_token (row_at m' 1 0)) = 0"
    by simp
  from r m1' m2'
  have d: "\<exists>m'. MapBlocksToBranchInstructions substring_branch_model = Inr m'
          \<and> (1, 0) \<in> set (mapped_branch_instructions (blocks m' ! 0))
          \<and> start_register_index (first_operand_token (row_at m' 1 0)) = 0"
    by blast
  from a b d show ?thesis by blast
qed

end
